theory Spec2Isabelle
  imports Main
begin

section \<open>Cell values and dataframes\<close>

text \<open>
  A cell of a dataframe after \<^verbatim>\<open>astype(object)\<close> holds a Python object. The loader reads
  its dataframes with \<^verbatim>\<open>pd.read_csv\<close>, so the objects are \<^verbatim>\<open>None\<close>, floats, integers,
  booleans and strings. The three special floats are constructors of their own; a finite
  float is carried as the text \<^verbatim>\<open>str()\<close> prints for it (Python prints a float as the
  shortest decimal that reads back to the same float, so the text identifies the value).
\<close>

datatype cell =
    CNone
  | CNaN
  | CInf
  | CNegInf
  | CFloat string
  | CInt int
  | CBool bool
  | CStr string

text \<open>
  A dataframe is held row by row: the ordered column labels and, for each row of the
  index, the cells in the order of the labels. The row count is the length of \<open>rows\<close>,
  also when there is no column at all.
\<close>

record dataframe =
  columns :: "string list"
  rows :: "cell list list"

definition wf_df :: "dataframe \<Rightarrow> bool" where
  \<comment> \<open>What \<^verbatim>\<open>pd.read_csv\<close> gives: distinct labels (duplicates are renamed), every row as
      wide as the label list.\<close>
  "wf_df df \<longleftrightarrow> distinct (columns df) \<and> list_all (\<lambda>r. length r = length (columns df)) (rows df)"

definition nrows :: "dataframe \<Rightarrow> nat" where
  \<comment> \<open>\<^verbatim>\<open>len(df)\<close>\<close>
  "nrows df = length (rows df)"

definition row_get :: "string list \<Rightarrow> cell list \<Rightarrow> string \<Rightarrow> cell list" where
  \<comment> \<open>the cells of a row that stand under label \<open>c\<close> (one cell when the labels are distinct)\<close>
  "row_get cols r c = map snd (filter (\<lambda>p. fst p = c) (zip cols r))"

definition col_values :: "dataframe \<Rightarrow> string \<Rightarrow> cell list list" where
  \<comment> \<open>\<^verbatim>\<open>df[c]\<close>, row by row\<close>
  "col_values df c = map (\<lambda>r. row_get (columns df) r c) (rows df)"

definition map_column :: "string \<Rightarrow> (cell \<Rightarrow> cell) \<Rightarrow> dataframe \<Rightarrow> dataframe" where
  \<comment> \<open>\<^verbatim>\<open>df[c] = f(df[c])\<close> for a label that exists\<close>
  "map_column c f df =
     df\<lparr>rows := map (\<lambda>r. map (\<lambda>(n, v). if n = c then f v else v) (zip (columns df) r)) (rows df)\<rparr>"

definition setitem_none :: "string \<Rightarrow> dataframe \<Rightarrow> dataframe" where
  \<comment> \<open>\<^verbatim>\<open>df[c] = None\<close>: an existing column is overwritten, a new one is appended\<close>
  "setitem_none c df =
     (if c \<in> set (columns df) then map_column c (\<lambda>_. CNone) df
      else \<lparr>columns = columns df @ [c], rows = map (\<lambda>r. r @ [CNone]) (rows df)\<rparr>)"

datatype error = KeyError string | ValueError | TableMissing string | SchemaExtensionFailure string string

definition getitem_cols :: "string list \<Rightarrow> dataframe \<Rightarrow> error + dataframe" where
  \<comment> \<open>\<^verbatim>\<open>df[labels]\<close>: the columns under the labels, in the order of the labels; a label the
      dataframe does not have raises KeyError\<close>
  "getitem_cols labels df =
     (case filter (\<lambda>c. c \<notin> set (columns df)) labels of
        c # _ \<Rightarrow> Inl (KeyError c)
      | [] \<Rightarrow> Inr \<lparr>columns = concat (map (\<lambda>c. filter (\<lambda>n. n = c) (columns df)) labels),
                  rows = map (\<lambda>r. concat (map (row_get (columns df) r) labels)) (rows df)\<rparr>)"

section \<open>Null and boolean normalisation\<close>

definition NULL_REPLACEMENTS :: "(cell \<times> cell) list" where
  \<comment> \<open>the dict handed to \<^verbatim>\<open>df.replace\<close>\<close>
  "NULL_REPLACEMENTS =
     [(CNaN, CNone), (CInf, CNone), (CNegInf, CNone),
      (CStr ''nan'', CNone), (CStr ''NaN'', CNone), (CStr ''None'', CNone), (CStr '''', CNone)]"

definition key_matches :: "cell \<Rightarrow> cell \<Rightarrow> bool" where
  \<comment> \<open>pandas matches the key NaN against every missing value (NaN and None), any other key
      by equality; none of the keys of this dict equals a value of another type\<close>
  "key_matches k v = (if k = CNaN then v = CNaN \<or> v = CNone else v = k)"

fun replace_cell :: "(cell \<times> cell) list \<Rightarrow> cell \<Rightarrow> cell" where
  "replace_cell [] v = v"
| "replace_cell ((k, w) # kws) v = (if key_matches k v then w else replace_cell kws v)"

definition normalise_nulls :: "dataframe \<Rightarrow> dataframe" where
  "normalise_nulls df = df\<lparr>rows := map (map (replace_cell NULL_REPLACEMENTS)) (rows df)\<rparr>"

definition lower_char :: "char \<Rightarrow> char" where
  \<comment> \<open>\<^verbatim>\<open>str.lower\<close> on the ASCII letters; a character outside ASCII never lowers to an
      ASCII letter of the accepted words\<close>
  "lower_char c = (let n = (of_char c :: nat) in if 65 \<le> n \<and> n \<le> 90 then char_of (n + 32) else c)"

definition str_lower :: "string \<Rightarrow> string" where
  "str_lower s = map lower_char s"

definition digit_char :: "nat \<Rightarrow> char" where
  "digit_char d = char_of (48 + d)"

fun nat_str :: "nat \<Rightarrow> string" where
  "nat_str n = (if n < 10 then [digit_char n] else nat_str (n div 10) @ [digit_char (n mod 10)])"

declare nat_str.simps [simp del]

definition int_str :: "int \<Rightarrow> string" where
  "int_str i = (if i < 0 then CHR ''-'' # nat_str (nat (- i)) else nat_str (nat i))"

fun py_str :: "cell \<Rightarrow> string" where
  \<comment> \<open>\<^verbatim>\<open>str(v)\<close>, what \<^verbatim>\<open>astype(str)\<close> applies to each object\<close>
  "py_str CNone = ''None''"
| "py_str CNaN = ''nan''"
| "py_str CInf = ''inf''"
| "py_str CNegInf = ''-inf''"
| "py_str (CFloat s) = s"
| "py_str (CInt i) = int_str i"
| "py_str (CBool b) = (if b then ''True'' else ''False'')"
| "py_str (CStr s) = s"

definition TRUE_WORDS :: "string list" where
  "TRUE_WORDS = [''true'', ''1'', ''t'', ''yes'', ''y'']"

definition bool_int_cell :: "cell \<Rightarrow> cell" where
  \<comment> \<open>\<^verbatim>\<open>.astype(str).str.lower().isin([...]).astype(int)\<close> on one cell\<close>
  "bool_int_cell v = CInt (if str_lower (py_str v) \<in> set TRUE_WORDS then 1 else 0)"

definition to_bool_int :: "dataframe \<Rightarrow> string list \<Rightarrow> dataframe" where
  "to_bool_int df cols =
     fold (\<lambda>c d. if c \<in> set (columns d) then map_column c bool_int_cell d else d) cols df"

section \<open>The database behind the cursor\<close>

text \<open>
  The MySQL server is outside the repository. The loader sends it three kinds of
  statement, and the state below keeps what they act on: for every table its ordered
  column names and its stored rows, the statements executed so far, and what the loader
  has printed.
\<close>

datatype request =
    ShowColumns string
  | AlterAddTextNull string string
  | InsertIgnore string "string list" "cell list list"

datatype notice =
    Skip string
  | Load string
  | Ok string nat
  | CreatedExtras string "string list"
  | DroppingExtras string "string list"
  | Done

record tbl =
  tcols :: "string list"
  trows :: "cell list list"

record state =
  tables :: "(string \<times> tbl) list"
  executed :: "request list"
  printed :: "notice list"

definition wf_tbl :: "tbl \<Rightarrow> bool" where
  \<comment> \<open>A table of the DDL: its first column is its primary key, MySQL keeps column
      names distinct without regard to case, and a stored row has a cell for every column.\<close>
  "wf_tbl t \<longleftrightarrow> tcols t \<noteq> [] \<and> distinct (map str_lower (tcols t))
     \<and> list_all (\<lambda>r. length r = length (tcols t)) (trows t)"

definition update_table :: "string \<Rightarrow> (tbl \<Rightarrow> tbl) \<Rightarrow> (string \<times> tbl) list \<Rightarrow> (string \<times> tbl) list" where
  "update_table name f ts = map (\<lambda>(n, t). if n = name then (n, f t) else (n, t)) ts"

definition backtick_escape :: "string \<Rightarrow> string" where
  \<comment> \<open>\<^verbatim>\<open>col.replace("`", "``")\<close>\<close>
  "backtick_escape s = concat (map (\<lambda>ch. if ch = CHR 0x60 then [CHR 0x60, CHR 0x60] else [ch]) s)"

definition join :: "string \<Rightarrow> string list \<Rightarrow> string" where
  "join sep xs = (case xs of [] \<Rightarrow> [] | x # ys \<Rightarrow> x @ concat (map (\<lambda>y. sep @ y) ys))"

fun sql_text :: "request \<Rightarrow> string" where
  \<comment> \<open>the statement text the loader builds\<close>
  "sql_text (ShowColumns table) = ''SHOW COLUMNS FROM '' @ [CHR 0x60] @ table @ [CHR 0x60] @ '';''"
| "sql_text (AlterAddTextNull table col) =
     ''ALTER TABLE '' @ [CHR 0x60] @ table @ [CHR 0x60] @ '' ADD COLUMN '' @ [CHR 0x60]
       @ backtick_escape col @ [CHR 0x60] @ '' TEXT NULL;''"
| "sql_text (InsertIgnore table cols batch) =
     ''INSERT IGNORE INTO '' @ [CHR 0x60] @ table @ [CHR 0x60] @ '' (''
       @ join '', '' (map (\<lambda>c. [CHR 0x60] @ c @ [CHR 0x60]) cols) @ '') VALUES (''
       @ join '','' (map (\<lambda>_. ''%s'') cols) @ '')''"

definition get_table_columns :: "state \<Rightarrow> string \<Rightarrow> error + (string list \<times> state)" where
  "get_table_columns s table =
     (case map_of (tables s) table of
        None \<Rightarrow> Inl (TableMissing table)
      | Some t \<Rightarrow> Inr (tcols t, s\<lparr>executed := executed s @ [ShowColumns table]\<rparr>))"

definition alter_add :: "state \<Rightarrow> string \<Rightarrow> string \<Rightarrow> error + state" where
  \<comment> \<open>\<^verbatim>\<open>ALTER TABLE t ADD COLUMN c TEXT NULL\<close>: rejected when the table has a column of that
      name (MySQL compares column names without regard to case); otherwise the column is
      appended after the last one and the stored rows hold NULL in it\<close>
  "alter_add s table col =
     (case map_of (tables s) table of
        None \<Rightarrow> Inl (TableMissing table)
      | Some t \<Rightarrow>
          if str_lower col \<in> set (map str_lower (tcols t)) then Inl (SchemaExtensionFailure table col)
          else Inr (s\<lparr>tables := update_table table
                          (\<lambda>t. \<lparr>tcols = tcols t @ [col], trows = map (\<lambda>r. r @ [CNone]) (trows t)\<rparr>)
                          (tables s),
                       executed := executed s @ [AlterAddTextNull table col]\<rparr>))"

definition pk_of :: "cell list \<Rightarrow> cell list" where
  \<comment> \<open>every table of the DDL has its primary key in its first column\<close>
  "pk_of r = take 1 r"

definition insert_row :: "string list \<Rightarrow> tbl \<Rightarrow> cell list \<Rightarrow> tbl" where
  \<comment> \<open>INSERT IGNORE of one tuple: the row is laid out in the table's column order, and it
      is skipped when a stored row has its primary key\<close>
  "insert_row cols t r =
     (let stored = map (\<lambda>c. case map_of (zip cols r) c of Some v \<Rightarrow> v | None \<Rightarrow> CNone) (tcols t)
      in if pk_of stored \<in> set (map pk_of (trows t)) then t
         else t\<lparr>trows := trows t @ [stored]\<rparr>)"

definition executemany :: "state \<Rightarrow> string \<Rightarrow> string list \<Rightarrow> cell list list \<Rightarrow> error + state" where
  "executemany s table cols batch =
     (case map_of (tables s) table of
        None \<Rightarrow> Inl (TableMissing table)
      | Some t \<Rightarrow>
          (case filter (\<lambda>c. c \<notin> set (tcols t)) cols of
             c # _ \<Rightarrow> Inl (KeyError c)
           | [] \<Rightarrow> Inr (s\<lparr>tables := update_table table (\<lambda>t. fold (\<lambda>r t. insert_row cols t r) batch t) (tables s),
                           executed := executed s @ [InsertIgnore table cols batch]\<rparr>)))"

section \<open>Schema alignment\<close>

fun alter_all :: "state \<Rightarrow> string \<Rightarrow> string list \<Rightarrow> error + state" where
  "alter_all s table [] = Inr s"
| "alter_all s table (col # cols) =
     (case alter_add s table col of Inl e \<Rightarrow> Inl e | Inr s' \<Rightarrow> alter_all s' table cols)"

definition ensure_extra_columns_as_null :: "state \<Rightarrow> string \<Rightarrow> string list \<Rightarrow> error + state" where
  "ensure_extra_columns_as_null s table extra_cols =
     (if extra_cols = [] then Inr s
      else (case alter_all s table extra_cols of
              Inl e \<Rightarrow> Inl e
            | Inr s' \<Rightarrow> Inr (s'\<lparr>printed := printed s' @ [CreatedExtras table extra_cols]\<rparr>)))"

definition reorder :: "state \<Rightarrow> string list \<Rightarrow> string list \<Rightarrow> dataframe
    \<Rightarrow> error + (dataframe \<times> string list \<times> state)" where
  \<comment> \<open>the tail of \<^verbatim>\<open>align_df_to_table\<close>: fill the missing columns, then \<^verbatim>\<open>df[table_cols]\<close>\<close>
  "reorder s table_cols missing df =
     (case getitem_cols table_cols (fold setitem_none missing df) of
        Inl e \<Rightarrow> Inl e
      | Inr df' \<Rightarrow> Inr (df', table_cols, s))"

definition align_df_to_table :: "state \<Rightarrow> string \<Rightarrow> dataframe \<Rightarrow> bool
    \<Rightarrow> error + (dataframe \<times> string list \<times> state)" where
  "align_df_to_table s table df add_extras_as_null =
     (case get_table_columns s table of
        Inl e \<Rightarrow> Inl e
      | Inr (table_cols, s1) \<Rightarrow>
          let extra = filter (\<lambda>c. c \<notin> set table_cols) (columns df);
              missing = filter (\<lambda>c. c \<notin> set (columns df)) table_cols
          in if extra \<noteq> [] \<and> add_extras_as_null then
               (case ensure_extra_columns_as_null s1 table extra of
                  Inl e \<Rightarrow> Inl e
                | Inr s2 \<Rightarrow>
                    (case get_table_columns s2 table of
                       Inl e \<Rightarrow> Inl e
                     | Inr (table_cols', s3) \<Rightarrow>
                         let df' = fold setitem_none extra df;
                             missing' = filter (\<lambda>c. c \<notin> set (columns df')) table_cols'
                         in reorder s3 table_cols' missing' df'))
             else if extra \<noteq> [] then
               (case getitem_cols (filter (\<lambda>c. c \<in> set table_cols) (columns df)) df of
                  Inl e \<Rightarrow> Inl e
                | Inr df' \<Rightarrow>
                    reorder (s1\<lparr>printed := printed s1 @ [DroppingExtras table extra]\<rparr>)
                      table_cols missing df')
             else reorder s1 table_cols missing df)"

section \<open>Batched insert and the run over the load order\<close>

function py_range :: "nat \<Rightarrow> nat \<Rightarrow> nat \<Rightarrow> nat list" where
  \<comment> \<open>\<^verbatim>\<open>range(i, n, step)\<close> for a positive step\<close>
  "py_range i n step = (if step = 0 \<or> n \<le> i then [] else i # py_range (i + step) n step)"
  by pat_completeness auto
termination
  by (relation "measure (\<lambda>(i, n, step). n - i)") auto

declare py_range.simps [simp del]

definition chunked :: "dataframe \<Rightarrow> nat \<Rightarrow> error + dataframe list" where
  \<comment> \<open>\<^verbatim>\<open>range\<close> raises ValueError on a zero step\<close>
  "chunked df sz =
     (if sz = 0 then Inl ValueError
      else Inr (map (\<lambda>i. df\<lparr>rows := take sz (drop i (rows df))\<rparr>) (py_range 0 (nrows df) sz)))"

definition BOOL_COLS :: "(string \<times> string list) list" where
  "BOOL_COLS =
     [(''product_variants'', [''mount_included_flag'']),
      (''product_listings'', [''is_active'']),
      (''customers'', [''repeat_customer_flag''])]"

definition bool_cols_of :: "string \<Rightarrow> string list" where
  \<comment> \<open>\<^verbatim>\<open>BOOL_COLS.get(table, [])\<close>\<close>
  "bool_cols_of table = (case map_of BOOL_COLS table of None \<Rightarrow> [] | Some cs \<Rightarrow> cs)"

fun insert_parts :: "state \<Rightarrow> string \<Rightarrow> string list \<Rightarrow> dataframe list \<Rightarrow> error + state" where
  "insert_parts s table cols [] = Inr s"
| "insert_parts s table cols (part # parts) =
     (case executemany s table cols (rows part) of
        Inl e \<Rightarrow> Inl e
      | Inr s' \<Rightarrow> insert_parts s' table cols parts)"

definition load_table :: "state \<Rightarrow> string \<Rightarrow> dataframe \<Rightarrow> bool \<Rightarrow> error + state" where
  "load_table s table df add_extras_as_null =
     (let df1 = normalise_nulls df;
          df2 = to_bool_int df1 (bool_cols_of table)
      in case align_df_to_table s table df2 add_extras_as_null of
           Inl e \<Rightarrow> Inl e
         | Inr (df3, cols, s1) \<Rightarrow>
             (case chunked df3 5000 of
                Inl e \<Rightarrow> Inl e
              | Inr parts \<Rightarrow> insert_parts s1 table cols parts))"

definition LOAD_ORDER :: "string list" where
  "LOAD_ORDER =
     [''brands'', ''platforms'', ''categories'', ''platform_fees'', ''marketplace_accounts'',
      ''products'', ''product_variants'', ''product_listings'', ''listing_prices'', ''channel_inventory'',
      ''customers'',
      ''orders'', ''order_items'', ''order_fees'', ''payments'', ''shipments'', ''returns'', ''return_items'',
      ''reviews'',
      ''warehouses'', ''inventory'']"

definition store_true :: "bool \<Rightarrow> bool \<Rightarrow> bool" where
  \<comment> \<open>argparse's \<^verbatim>\<open>action="store_true"\<close>: True when the flag is on the command line, the
      declared default otherwise\<close>
  "store_true dflt given = (if given then True else dflt)"

definition add_extras_as_null_arg :: "bool \<Rightarrow> bool" where
  \<comment> \<open>\<^verbatim>\<open>args.add_extras_as_null\<close>, from whether \<^verbatim>\<open>--add-extras-as-null\<close> was given\<close>
  "add_extras_as_null_arg given = store_true True given"

fun load_all :: "bool \<Rightarrow> (string \<Rightarrow> dataframe option) \<Rightarrow> state \<Rightarrow> string list \<Rightarrow> error + state" where
  \<comment> \<open>the loop of \<^verbatim>\<open>main\<close>; \<open>files name\<close> is the parsed \<^verbatim>\<open>name.csv\<close>, None when the file
      does not exist\<close>
  "load_all flag files s [] = Inr s"
| "load_all flag files s (name # names) =
     (case files name of
        None \<Rightarrow> load_all flag files (s\<lparr>printed := printed s @ [Skip name]\<rparr>) names
      | Some df \<Rightarrow>
          (case load_table (s\<lparr>printed := printed s @ [Load name]\<rparr>) name df flag of
             Inl e \<Rightarrow> Inl e
           | Inr s' \<Rightarrow> load_all flag files (s'\<lparr>printed := printed s' @ [Ok name (nrows df)]\<rparr>) names))"

definition main :: "bool \<Rightarrow> (string \<Rightarrow> dataframe option) \<Rightarrow> state \<Rightarrow> error + state" where
  \<comment> \<open>\<^verbatim>\<open>main\<close> after the DDL has run: \<open>s\<close> is the database with the tables created\<close>
  "main given files s =
     (case load_all (add_extras_as_null_arg given) files s LOAD_ORDER of
        Inl e \<Rightarrow> Inl e
      | Inr s' \<Rightarrow> Inr (s'\<lparr>printed := printed s' @ [Done]\<rparr>))"

section \<open>Normalisation of cells\<close>

lemma replace_cell_null:
  "replace_cell NULL_REPLACEMENTS v =
     (if v \<in> {CNaN, CInf, CNegInf, CStr ''nan'', CStr ''NaN'', CStr ''None'', CStr ''''} then CNone else v)"
  by (simp add: NULL_REPLACEMENTS_def key_matches_def)

text \<open>
  C2. \<^verbatim>\<open>normalise_nulls\<close> keeps the columns and maps every cell on its own: NaN, positive
  and negative infinity and the strings "nan", "NaN", "None" and "" become None, and every
  other cell is left as it is.
\<close>

theorem normalise_nulls_maps_null_forms:
  "normalise_nulls df =
     df\<lparr>rows := map (map (\<lambda>v. if v \<in> {CNaN, CInf, CNegInf, CStr ''nan'', CStr ''NaN'', CStr ''None'', CStr ''''}
                               then CNone else v)) (rows df)\<rparr>"
  unfolding normalise_nulls_def using replace_cell_null by presburger

theorem normalise_nulls_maps_null_forms_witness:
  "normalise_nulls
     \<lparr>columns = [''a'', ''b'', ''c'', ''d''],
      rows = [[CNaN, CInf, CNegInf, CStr ''nan''],
              [CStr ''NaN'', CStr ''None'', CStr '''', CStr ''none''],
              [CInt 0, CBool False, CFloat ''0.0'', CNone]]\<rparr>
   = \<lparr>columns = [''a'', ''b'', ''c'', ''d''],
      rows = [[CNone, CNone, CNone, CNone],
              [CNone, CNone, CNone, CStr ''none''],
              [CInt 0, CBool False, CFloat ''0.0'', CNone]]\<rparr>"
  using normalise_nulls_maps_null_forms
    [of "\<lparr>columns = [''a'', ''b'', ''c'', ''d''],
          rows = [[CNaN, CInf, CNegInf, CStr ''nan''],
                  [CStr ''NaN'', CStr ''None'', CStr '''', CStr ''none''],
                  [CInt 0, CBool False, CFloat ''0.0'', CNone]]\<rparr>"]
  by simp

lemma lower_char_idem: "lower_char (lower_char c) = lower_char c"
  by (simp add: lower_char_def Let_def)

lemma str_lower_idem: "str_lower (str_lower s) = str_lower s"
  by (simp add: str_lower_def lower_char_idem)

lemma bool_int_cell_one: "bool_int_cell (CInt 1) = CInt 1"
  by code_simp

lemma bool_int_cell_zero: "bool_int_cell (CInt 0) = CInt 0"
  by code_simp

lemma bool_int_cell_range: "bool_int_cell v = CInt 1 \<or> bool_int_cell v = CInt 0"
  by (simp add: bool_int_cell_def)

lemma bool_int_cell_idem: "bool_int_cell (bool_int_cell v) = bool_int_cell v"
  using bool_int_cell_range [of v] bool_int_cell_one bool_int_cell_zero by auto

lemma zip_map_zip: "zip xs (map g (zip xs ys)) = map (\<lambda>p. (fst p, g p)) (zip xs ys)"
proof (induction xs arbitrary: ys)
  case Nil
  then show ?case by simp
next
  case (Cons x xs)
  then show ?case by (cases ys) simp_all
qed

lemma columns_map_column [simp]: "columns (map_column c f df) = columns df"
  by (simp add: map_column_def)

lemma col_values_map_column:
  "col_values (map_column c f df) c' =
     (if c' = c then map (map f) (col_values df c) else col_values df c')"
  by (auto simp: col_values_def map_column_def row_get_def zip_map_zip filter_map comp_def
      intro!: arg_cong[where f="map snd"] filter_cong)

lemma to_bool_int_columns [simp]: "columns (to_bool_int df cols) = columns df"
  unfolding to_bool_int_def by (induction cols arbitrary: df) simp_all

lemma col_values_to_bool_int:
  "col_values (to_bool_int df cols) c =
     (if c \<in> set cols \<and> c \<in> set (columns df) then map (map bool_int_cell) (col_values df c)
      else col_values df c)"
  unfolding to_bool_int_def
proof (induction cols arbitrary: df)
  case Nil
  then show ?case by simp
next
  case (Cons a cols)
  then show ?case
    by (auto simp: col_values_map_column bool_int_cell_idem comp_def)
qed

lemma of_char_digit: "d < 10 \<Longrightarrow> (of_char (digit_char d) :: nat) = 48 + d"
  by (simp add: digit_char_def)

lemma lower_char_digit: "d < 10 \<Longrightarrow> lower_char (digit_char d) = digit_char d"
  by (simp add: lower_char_def Let_def of_char_digit)

lemma digit_char_not_letter: "d < 10 \<Longrightarrow> 58 \<le> (of_char c :: nat) \<Longrightarrow> digit_char d \<noteq> c"
  using of_char_digit [of d] by auto

lemma digit_char_one: "d < 10 \<Longrightarrow> digit_char d = CHR ''1'' \<longleftrightarrow> d = 1"
proof
  assume "d < 10" and "digit_char d = CHR ''1''"
  then have "(48 + d :: nat) = of_char CHR ''1''" using of_char_digit [of d] by simp
  then show "d = 1" by simp
next
  assume "d = 1"
  moreover have "digit_char 1 = CHR ''1''" by code_simp
  ultimately show "digit_char d = CHR ''1''" by simp
qed

lemma nat_str_nonempty: "nat_str n \<noteq> []"
  by (subst nat_str.simps) simp

lemma str_lower_nat_str: "str_lower (nat_str n) = nat_str n"
proof (induction n rule: nat_str.induct)
  case (1 n)
  show ?case
  proof (cases "n < 10")
    case True
    then show ?thesis
      by (subst (1 2) nat_str.simps) (simp add: str_lower_def lower_char_digit)
  next
    case False
    with 1 have "str_lower (nat_str (n div 10)) = nat_str (n div 10)" by simp
    with False show ?thesis
      by (subst (1 2) nat_str.simps) (simp add: str_lower_def lower_char_digit)
  qed
qed

lemma nat_str_true_word: "nat_str n \<in> set TRUE_WORDS \<longleftrightarrow> n = 1"
proof (cases "n < 10")
  case True
  then have "nat_str n = [digit_char n]" by (subst nat_str.simps) simp
  with True show ?thesis
    by (simp add: TRUE_WORDS_def digit_char_one digit_char_not_letter)
next
  case False
  obtain p where p: "nat_str (n div 10) = p" by simp
  have ne: "p \<noteq> []" using p nat_str_nonempty by blast
  have d: "n mod 10 < 10" by simp
  have eq: "nat_str n = p @ [digit_char (n mod 10)]"
    using False p by (subst nat_str.simps) simp
  have "last (nat_str n) = digit_char (n mod 10)" using eq by simp
  moreover have "length (nat_str n) \<ge> 2" using eq ne by (cases p) auto
  ultimately have "nat_str n \<notin> set TRUE_WORDS"
    using digit_char_not_letter [OF d, of "CHR ''e''"] digit_char_not_letter [OF d, of "CHR ''s''"]
    by (auto simp: TRUE_WORDS_def)
  with False show ?thesis by auto
qed

lemma bool_int_cell_CInt: "bool_int_cell (CInt i) = CInt (if i = 1 then 1 else 0)"
proof (cases "i < 0")
  case True
  have "lower_char CHR ''-'' = CHR ''-''" by code_simp
  then have "str_lower (int_str i) = CHR ''-'' # nat_str (nat (- i))"
    using True by (simp add: int_str_def str_lower_def str_lower_nat_str [unfolded str_lower_def])
  then have "str_lower (int_str i) \<notin> set TRUE_WORDS"
    by (simp add: TRUE_WORDS_def)
  with True show ?thesis by (simp add: bool_int_cell_def)
next
  case False
  then have "str_lower (int_str i) = nat_str (nat i)"
    by (simp add: int_str_def str_lower_nat_str)
  moreover have "nat i = 1 \<longleftrightarrow> i = 1" using False by auto
  ultimately show ?thesis
    by (simp add: bool_int_cell_def nat_str_true_word)
qed

lemma bool_int_cell_CBool: "bool_int_cell (CBool b) = CInt (if b then 1 else 0)"
proof (cases b)
  case True
  have "bool_int_cell (CBool True) = CInt 1" by code_simp
  with True show ?thesis by simp
next
  case False
  have "bool_int_cell (CBool False) = CInt 0" by code_simp
  with False show ?thesis by simp
qed

text \<open>
  C3. On a designated boolean column, \<^verbatim>\<open>to_bool_int\<close> turns every cell into its text,
  lower-cases it and stores 1 when the text is one of "true", "1", "t", "yes", "y", and 0
  otherwise. So the stored value is one of two, the case of the text does not matter
  ("TRUE", "true", "1" and "Y" all give 1), and "Yes", "0", "TRUE", "maybe" give
  1, 0, 1, 0. The columns that are not designated keep their cells.

  The text of a cell is what \<^verbatim>\<open>str\<close> gives: a string is its own text, \<^verbatim>\<open>True\<close> and
  \<^verbatim>\<open>False\<close> are "True" and "False", None is "None", the special floats are "nan", "inf"
  and "-inf", an integer is its decimal numeral. Hence a boolean cell stores 1 exactly when
  it is \<^verbatim>\<open>True\<close>, an integer cell exactly when it is 1, a float cell never ("1.0" is not
  an accepted word), and None never.
\<close>

theorem to_bool_int_two_values:
  "bool_int_cell v = CInt (if str_lower (py_str v) \<in> {''true'', ''1'', ''t'', ''yes'', ''y''} then 1 else 0)
   \<and> bool_int_cell v \<in> {CInt 0, CInt 1}
   \<and> bool_int_cell (CStr (str_lower s)) = bool_int_cell (CStr s)
   \<and> map bool_int_cell [CStr ''TRUE'', CStr ''true'', CStr ''1'', CStr ''Y''] = [CInt 1, CInt 1, CInt 1, CInt 1]
   \<and> map bool_int_cell [CStr ''Yes'', CStr ''0'', CStr ''TRUE'', CStr ''maybe''] = [CInt 1, CInt 0, CInt 1, CInt 0]
   \<and> columns (to_bool_int df cols) = columns df
   \<and> col_values (to_bool_int df cols) c =
       (if c \<in> set cols \<and> c \<in> set (columns df) then map (map bool_int_cell) (col_values df c)
        else col_values df c)
   \<and> map py_str [CNone, CNaN, CInf, CNegInf, CBool True, CBool False, CFloat s, CStr s]
       = [''None'', ''nan'', ''inf'', ''-inf'', ''True'', ''False'', s, s]
   \<and> map py_str [CInt 0, CInt 1, CInt 10, CInt 5000, CInt (- 12)] = [''0'', ''1'', ''10'', ''5000'', ''-12'']
   \<and> str_lower ''TRUE Yes t1-Zz'' = ''true yes t1-zz''
   \<and> bool_int_cell (CBool b) = CInt (if b then 1 else 0)
   \<and> bool_int_cell (CInt i) = CInt (if i = 1 then 1 else 0)
   \<and> map bool_int_cell [CNone, CNaN, CInf, CNegInf, CFloat ''1.0'', CFloat ''0.0''] = [CInt 0, CInt 0, CInt 0, CInt 0, CInt 0, CInt 0]
   \<and> bool_int_cell (CFloat s) = bool_int_cell (CStr s)
   \<and> to_bool_int
         \<lparr>columns = [''customer_id'', ''repeat_customer_flag'', ''email''],
          rows = [[CInt 1, CBool True, CStr ''TRUE''], [CInt 2, CBool False, CStr ''y''],
                  [CInt 3, CNone, CNone], [CInt 4, CFloat ''1.0'', CStr ''1'']]\<rparr>
         (bool_cols_of ''customers'')
       = \<lparr>columns = [''customer_id'', ''repeat_customer_flag'', ''email''],
          rows = [[CInt 1, CInt 1, CStr ''TRUE''], [CInt 2, CInt 0, CStr ''y''],
                  [CInt 3, CInt 0, CNone], [CInt 4, CInt 0, CStr ''1'']]\<rparr>
   \<and> map bool_cols_of [''product_variants'', ''product_listings'', ''customers'', ''brands'']
       = [[''mount_included_flag''], [''is_active''], [''repeat_customer_flag''], []]"
proof -
  have a: "bool_int_cell v = CInt (if str_lower (py_str v) \<in> {''true'', ''1'', ''t'', ''yes'', ''y''} then 1 else 0)"
    by (simp add: bool_int_cell_def TRUE_WORDS_def)
  have b: "bool_int_cell v \<in> {CInt 0, CInt 1}"
    using bool_int_cell_range [of v] by auto
  have c: "bool_int_cell (CStr (str_lower s)) = bool_int_cell (CStr s)"
    by (simp add: bool_int_cell_def str_lower_idem)
  have d: "map bool_int_cell [CStr ''TRUE'', CStr ''true'', CStr ''1'', CStr ''Y''] = [CInt 1, CInt 1, CInt 1, CInt 1]"
    by code_simp
  have e: "map bool_int_cell [CStr ''Yes'', CStr ''0'', CStr ''TRUE'', CStr ''maybe''] = [CInt 1, CInt 0, CInt 1, CInt 0]"
    by code_simp
  have f: "map py_str [CNone, CNaN, CInf, CNegInf, CBool True, CBool False, CFloat s, CStr s]
       = [''None'', ''nan'', ''inf'', ''-inf'', ''True'', ''False'', s, s]"
    by simp
  have g: "map py_str [CInt 0, CInt 1, CInt 10, CInt 5000, CInt (- 12)] = [''0'', ''1'', ''10'', ''5000'', ''-12'']"
    by code_simp
  have h: "str_lower ''TRUE Yes t1-Zz'' = ''true yes t1-zz''"
    by code_simp
  have i: "map bool_int_cell [CNone, CNaN, CInf, CNegInf, CFloat ''1.0'', CFloat ''0.0''] = [CInt 0, CInt 0, CInt 0, CInt 0, CInt 0, CInt 0]"
    by code_simp
  have j: "bool_int_cell (CFloat s) = bool_int_cell (CStr s)"
    by (simp add: bool_int_cell_def)
  have k: "to_bool_int
         \<lparr>columns = [''customer_id'', ''repeat_customer_flag'', ''email''],
          rows = [[CInt 1, CBool True, CStr ''TRUE''], [CInt 2, CBool False, CStr ''y''],
                  [CInt 3, CNone, CNone], [CInt 4, CFloat ''1.0'', CStr ''1'']]\<rparr>
         (bool_cols_of ''customers'')
       = \<lparr>columns = [''customer_id'', ''repeat_customer_flag'', ''email''],
          rows = [[CInt 1, CInt 1, CStr ''TRUE''], [CInt 2, CInt 0, CStr ''y''],
                  [CInt 3, CInt 0, CNone], [CInt 4, CInt 0, CStr ''1'']]\<rparr>"
    by code_simp
  have l: "map bool_cols_of [''product_variants'', ''product_listings'', ''customers'', ''brands'']
       = [[''mount_included_flag''], [''is_active''], [''repeat_customer_flag''], []]"
    by code_simp
  show ?thesis
    by (intro conjI)
      (rule a b c d e f g h i j k l to_bool_int_columns col_values_to_bool_int
        bool_int_cell_CBool bool_int_cell_CInt)+
qed

section \<open>Null normalisation and the boolean columns\<close>

lemma bool_int_cell_replace: "bool_int_cell (replace_cell NULL_REPLACEMENTS v) = bool_int_cell v"
proof (cases "v \<in> {CNaN, CInf, CNegInf, CStr ''nan'', CStr ''NaN'', CStr ''None'', CStr ''''}")
  case False
  then show ?thesis by (simp add: replace_cell_null)
next
  case True
  have n: "bool_int_cell CNone = CInt 0" by code_simp
  have "bool_int_cell v = CInt 0"
    using True by (elim insertE emptyE; hypsubst; code_simp)
  with True n show ?thesis by (simp add: replace_cell_null)
qed

lemma col_values_normalise_nulls:
  "col_values (normalise_nulls df) c = map (map (replace_cell NULL_REPLACEMENTS)) (col_values df c)"
  by (simp add: col_values_def normalise_nulls_def row_get_def zip_map2 filter_map comp_def case_prod_unfold)

lemma columns_normalise_nulls [simp]: "columns (normalise_nulls df) = columns df"
  by (simp add: normalise_nulls_def)

text \<open>
  C6, as stated, fails: \<^verbatim>\<open>load_table\<close> calls \<^verbatim>\<open>normalise_nulls\<close> on the whole dataframe
  before \<^verbatim>\<open>to_bool_int\<close>, so the cells of a designated boolean column are null-normalised
  too. An empty string in \<^verbatim>\<open>is_active\<close> of \<^verbatim>\<open>product_listings\<close> is None when the
  boolean step reads it.
\<close>

theorem bool_columns_null_normalised_counterexample:
  "''is_active'' \<in> set (bool_cols_of ''product_listings'')
   \<and> col_values \<lparr>columns = [''listing_id'', ''is_active''], rows = [[CInt 1, CStr '''']]\<rparr> ''is_active''
       = [[CStr '''']]
   \<and> col_values (normalise_nulls \<lparr>columns = [''listing_id'', ''is_active''], rows = [[CInt 1, CStr '''']]\<rparr>)
         ''is_active''
       = [[CNone]]"
  by (simp add: bool_cols_of_def BOOL_COLS_def col_values_def normalise_nulls_def row_get_def
      NULL_REPLACEMENTS_def key_matches_def)

text \<open>
  C6, amended. The null normalisation runs over every column, the designated boolean ones
  included, but it does not change what a boolean column stores: the dataframe that
  \<^verbatim>\<open>load_table\<close> hands to the alignment holds, in a designated boolean column of the
  dataset, the boolean value of the raw cell (0 or 1, never None); every other column
  holds the null-normalised cell.
\<close>

theorem bool_columns_store_bool_of_raw:
  "col_values (to_bool_int (normalise_nulls df) (bool_cols_of table)) c =
     (if c \<in> set (bool_cols_of table) \<and> c \<in> set (columns df)
      then map (map bool_int_cell) (col_values df c)
      else map (map (replace_cell NULL_REPLACEMENTS)) (col_values df c))"
  by (simp add: col_values_to_bool_int col_values_normalise_nulls comp_def bool_int_cell_replace)

section \<open>Batches\<close>

lemma concat_py_range:
  "0 < sz \<Longrightarrow> concat (map (\<lambda>i. take sz (drop i xs)) (py_range i (length xs) sz)) = drop i xs"
proof (induction i "length xs" sz rule: py_range.induct)
  case (1 i step)
  show ?case
  proof (cases "length xs \<le> i")
    case True
    then show ?thesis by (simp add: py_range.simps)
  next
    case False
    with 1 have "concat (map (\<lambda>i. take step (drop i xs)) (py_range (i + step) (length xs) step)) = drop (i + step) xs"
      by simp
    moreover have "py_range i (length xs) step = i # py_range (i + step) (length xs) step"
      using False 1(2) by (subst py_range.simps) simp
    moreover have "take step (drop i xs) @ drop (i + step) xs = drop i xs"
      by (metis add.commute append_take_drop_id drop_drop)
    ultimately show ?thesis by simp
  qed
qed

lemma py_range_lt: "j \<in> set (py_range i n sz) \<Longrightarrow> j < n \<and> 0 < sz"
proof (induction i n sz rule: py_range.induct)
  case (1 i n step)
  then show ?case
    by (subst (asm) (2) py_range.simps) (auto split: if_splits)
qed

lemma py_range_butlast: "j \<in> set (butlast (py_range i n sz)) \<Longrightarrow> j + sz < n"
proof (induction i n sz rule: py_range.induct)
  case (1 i n step)
  show ?case
  proof (cases "step = 0 \<or> n \<le> i")
    case True
    with 1(2) show ?thesis by (simp add: py_range.simps)
  next
    case False
    then have eq: "py_range i n step = i # py_range (i + step) n step"
      by (subst py_range.simps) simp
    show ?thesis
    proof (cases "py_range (i + step) n step = []")
      case True
      with 1(2) eq show ?thesis by simp
    next
      case ne: False
      then have "i + step < n"
        by (subst (asm) py_range.simps) (auto split: if_splits)
      with 1 False eq ne show ?thesis by auto
    qed
  qed
qed

lemma chunked_slices:
  assumes "0 < sz"
  shows "\<exists>parts. chunked df sz = Inr parts
           \<and> concat (map rows parts) = rows df
           \<and> list_all (\<lambda>p. columns p = columns df \<and> 0 < nrows p \<and> nrows p \<le> sz) parts
           \<and> list_all (\<lambda>p. nrows p = sz) (butlast parts)"
proof -
  let ?parts = "map (\<lambda>i. df\<lparr>rows := take sz (drop i (rows df))\<rparr>) (py_range 0 (nrows df) sz)"
  have c: "chunked df sz = Inr ?parts"
    using assms by (simp add: chunked_def)
  have "concat (map rows ?parts) = rows df"
    using concat_py_range [OF assms, of "rows df" 0] by (simp add: comp_def nrows_def)
  moreover have "list_all (\<lambda>p. columns p = columns df \<and> 0 < nrows p \<and> nrows p \<le> sz) ?parts"
    using assms by (auto simp: list_all_iff nrows_def dest: py_range_lt)
  moreover have "list_all (\<lambda>p. nrows p = sz) (butlast ?parts)"
    by (auto simp: list_all_iff nrows_def map_butlast [symmetric] dest!: py_range_butlast)
  ultimately show ?thesis using c by blast
qed

lemma executemany_executed:
  "executemany s t cols batch = Inr s' \<Longrightarrow>
     executed s' = executed s @ [InsertIgnore t cols batch] \<and> printed s' = printed s"
  by (auto simp: executemany_def split: option.splits list.splits)

lemma insert_parts_executed:
  "insert_parts s t cols parts = Inr s' \<Longrightarrow>
     executed s' = executed s @ map (\<lambda>p. InsertIgnore t cols (rows p)) parts \<and> printed s' = printed s"
proof (induction parts arbitrary: s)
  case Nil
  then show ?case by simp
next
  case (Cons p parts)
  then show ?case
    by (auto split: sum.splits dest!: executemany_executed)
qed


section \<open>Rows and columns of a dataframe\<close>

lemma row_get_Cons:
  "row_get (x # xs) (v # vs) c = (if x = c then [v] else []) @ row_get xs vs c"
  by (simp add: row_get_def)

lemma row_get_absent: "c \<notin> set cols \<Longrightarrow> row_get cols r c = []"
  by (auto simp: row_get_def filter_empty_conv dest: set_zip_leftD)

lemma row_get_single:
  "distinct cols \<Longrightarrow> length r = length cols \<Longrightarrow> c \<in> set cols \<Longrightarrow> length (row_get cols r c) = 1"
proof (induction cols arbitrary: r)
  case Nil
  then show ?case by simp
next
  case (Cons x xs)
  then obtain v vs where r: "r = v # vs" by (cases r) auto
  show ?case
  proof (cases "x = c")
    case True
    with Cons.prems r show ?thesis by (simp add: row_get_Cons row_get_absent)
  next
    case False
    with Cons r show ?thesis by (simp add: row_get_Cons)
  qed
qed

lemma row_get_append:
  "length r = length cols \<Longrightarrow> row_get (cols @ [c]) (r @ [v]) c' = row_get cols r c' @ (if c' = c then [v] else [])"
  by (simp add: row_get_def)

lemma length_concat_singles:
  "(\<And>x. x \<in> set xs \<Longrightarrow> length (f x) = 1) \<Longrightarrow> length (concat (map f xs)) = length xs"
  by (induction xs) simp_all

lemma concat_singles:
  "(\<And>x. x \<in> set xs \<Longrightarrow> length (f x) = 1) \<Longrightarrow> concat (map f xs) = map (\<lambda>x. hd (f x)) xs"
proof (induction xs)
  case Nil
  then show ?case by simp
next
  case (Cons a xs)
  then have "length (f a) = 1" by simp
  then obtain y where "f a = [y]" by (cases "f a") auto
  with Cons show ?case by simp
qed

lemma filter_eq_single: "distinct xs \<Longrightarrow> c \<in> set xs \<Longrightarrow> filter (\<lambda>n. n = c) xs = [c]"
  by (induction xs) (auto simp: filter_empty_conv)

lemma concat_filter_labels:
  "distinct cols \<Longrightarrow> set labels \<subseteq> set cols \<Longrightarrow>
     concat (map (\<lambda>c. filter (\<lambda>n. n = c) cols) labels) = labels"
  by (induction labels) (simp_all add: filter_eq_single)

lemma row_get_map:
  "row_get labels (map g labels) c = map g (filter (\<lambda>n. n = c) labels)"
  by (induction labels) (simp_all add: row_get_def)

section \<open>Assigning None to a column\<close>

lemma nrows_map_column [simp]: "nrows (map_column c f df) = nrows df"
  by (simp add: map_column_def nrows_def)

lemma wf_df_map_column: "wf_df df \<Longrightarrow> wf_df (map_column c f df)"
  by (auto simp: wf_df_def map_column_def list_all_iff)

lemma columns_setitem_none:
  "columns (setitem_none c df) = (if c \<in> set (columns df) then columns df else columns df @ [c])"
  by (simp add: setitem_none_def)

lemma nrows_setitem_none [simp]: "nrows (setitem_none c df) = nrows df"
  by (simp add: setitem_none_def nrows_def map_column_def)

lemma wf_df_setitem_none: "wf_df df \<Longrightarrow> wf_df (setitem_none c df)"
  by (auto simp: setitem_none_def wf_df_map_column) (auto simp: wf_df_def list_all_iff)

lemma col_values_single:
  "wf_df df \<Longrightarrow> c \<in> set (columns df) \<Longrightarrow> list_all (\<lambda>vs. length vs = 1) (col_values df c)"
  by (auto simp: wf_df_def col_values_def list_all_iff row_get_single)

lemma col_values_absent:
  "c \<notin> set (columns df) \<Longrightarrow> col_values df c = replicate (nrows df) []"
  by (simp add: col_values_def row_get_absent nrows_def map_replicate_const)

lemma map_const_singles:
  "list_all (\<lambda>vs. length vs = 1) xss \<Longrightarrow> map (map (\<lambda>_. v)) xss = replicate (length xss) [v]"
proof (induction xss)
  case Nil
  then show ?case by simp
next
  case (Cons xs xss)
  then obtain y where "xs = [y]" by (cases xs) auto
  with Cons show ?case by simp
qed

lemma length_col_values [simp]: "length (col_values df c) = nrows df"
  by (simp add: col_values_def nrows_def)

lemma col_values_setitem_none:
  assumes "wf_df df"
  shows "col_values (setitem_none c df) c' =
           (if c' = c then replicate (nrows df) [CNone] else col_values df c')"
proof (cases "c \<in> set (columns df)")
  case True
  then show ?thesis
    using map_const_singles [OF col_values_single [OF assms True], of CNone]
    by (simp add: setitem_none_def col_values_map_column)
next
  case False
  have "col_values (setitem_none c df) c' = map (\<lambda>r. row_get (columns df) r c' @ (if c' = c then [CNone] else [])) (rows df)"
    using False assms by (auto simp: setitem_none_def col_values_def wf_df_def list_all_iff row_get_append)
  then show ?thesis
    using False by (auto simp: col_values_def row_get_absent nrows_def map_replicate_const)
qed

lemma wf_df_fold_setitem_none: "wf_df df \<Longrightarrow> wf_df (fold setitem_none cs df)"
  by (induction cs arbitrary: df) (simp_all add: wf_df_setitem_none)

lemma nrows_fold_setitem_none [simp]: "nrows (fold setitem_none cs df) = nrows df"
  by (induction cs arbitrary: df) simp_all

lemma set_columns_fold_setitem_none:
  "set (columns (fold setitem_none cs df)) = set (columns df) \<union> set cs"
  by (induction cs arbitrary: df) (auto simp: columns_setitem_none split: if_splits)

lemma columns_fold_setitem_none_present:
  "set cs \<subseteq> set (columns df) \<Longrightarrow> columns (fold setitem_none cs df) = columns df"
  by (induction cs arbitrary: df) (simp_all add: columns_setitem_none)

lemma col_values_fold_setitem_none:
  "wf_df df \<Longrightarrow> col_values (fold setitem_none cs df) c =
     (if c \<in> set cs then replicate (nrows df) [CNone] else col_values df c)"
proof (induction cs arbitrary: df)
  case Nil
  then show ?case by simp
next
  case (Cons a cs)
  then show ?case
    by (simp add: wf_df_setitem_none col_values_setitem_none)
qed

section \<open>Selecting columns\<close>

lemma getitem_cols_ok:
  assumes "wf_df df" and "set labels \<subseteq> set (columns df)"
  shows "\<exists>df'. getitem_cols labels df = Inr df' \<and> columns df' = labels \<and> nrows df' = nrows df
           \<and> list_all (\<lambda>r. length r = length labels) (rows df')
           \<and> (distinct labels \<longrightarrow> wf_df df' \<and> (\<forall>c\<in>set labels. col_values df' c = col_values df c))"
proof -
  let ?cols = "columns df"
  let ?df' = "\<lparr>columns = concat (map (\<lambda>c. filter (\<lambda>n. n = c) ?cols) labels),
               rows = map (\<lambda>r. concat (map (row_get ?cols r) labels)) (rows df)\<rparr>"
  have f: "filter (\<lambda>c. c \<notin> set ?cols) labels = []"
    using assms(2) by (auto simp: filter_empty_conv)
  then have g: "getitem_cols labels df = Inr ?df'"
    by (simp add: getitem_cols_def)
  have d: "distinct ?cols" using assms(1) by (simp add: wf_df_def)
  have c: "columns ?df' = labels"
    using concat_filter_labels [OF d assms(2)] by simp
  have one: "\<And>r l. r \<in> set (rows df) \<Longrightarrow> l \<in> set labels \<Longrightarrow> length (row_get ?cols r l) = 1"
    using assms row_get_single [of ?cols] by (auto simp: wf_df_def list_all_iff)
  have rowlen: "list_all (\<lambda>r. length r = length labels) (rows ?df')"
    by (auto simp: list_all_iff intro!: length_concat_singles one)
  have cv: "col_values ?df' c = col_values df c" if dl: "distinct labels" and cl: "c \<in> set labels" for c
  proof -
    have "row_get labels (concat (map (row_get ?cols r) labels)) c = row_get ?cols r c"
      if r: "r \<in> set (rows df)" for r
    proof -
      have "concat (map (row_get ?cols r) labels) = map (\<lambda>l. hd (row_get ?cols r l)) labels"
        by (rule concat_singles) (simp add: one r)
      then have "row_get labels (concat (map (row_get ?cols r) labels)) c = [hd (row_get ?cols r c)]"
        by (simp add: row_get_map filter_eq_single dl cl)
      moreover have "length (row_get ?cols r c) = 1" using one r cl by simp
      then have "row_get ?cols r c = [hd (row_get ?cols r c)]"
        by (cases "row_get ?cols r c") auto
      ultimately show ?thesis by simp
    qed
    then show ?thesis
      using c by (simp add: col_values_def)
  qed
  have wf: "wf_df ?df'" if "distinct labels"
    using that c rowlen by (simp add: wf_df_def)
  show ?thesis
    using g c rowlen cv wf by (intro exI [of _ ?df']) (simp add: nrows_def)
qed

section \<open>The database requests\<close>

lemma map_of_update_table:
  "map_of (update_table name f ts) n = (if n = name then map_option f (map_of ts n) else map_of ts n)"
  by (induction ts) (auto simp: update_table_def)

lemma get_table_columns_Inr:
  "get_table_columns s t = Inr (tc, s1) \<longleftrightarrow>
     (\<exists>tb. map_of (tables s) t = Some tb \<and> tc = tcols tb \<and> s1 = s\<lparr>executed := executed s @ [ShowColumns t]\<rparr>)"
  by (auto simp: get_table_columns_def split: option.splits)

lemma get_table_columns_Inl:
  "get_table_columns s t = Inl e \<Longrightarrow> e = TableMissing t"
  by (auto simp: get_table_columns_def split: option.splits)

lemma alter_add_Inr:
  assumes "alter_add s t c = Inr s'" and "map_of (tables s) t = Some tb"
  shows "str_lower c \<notin> set (map str_lower (tcols tb))"
    and "map_of (tables s') t = Some \<lparr>tcols = tcols tb @ [c], trows = map (\<lambda>r. r @ [CNone]) (trows tb)\<rparr>"
    and "\<And>n. n \<noteq> t \<Longrightarrow> map_of (tables s') n = map_of (tables s) n"
    and "executed s' = executed s @ [AlterAddTextNull t c]"
    and "printed s' = printed s"
  using assms by (auto simp: alter_add_def map_of_update_table split: if_splits)

lemma alter_add_Inl:
  "alter_add s t c = Inl e \<Longrightarrow> e = TableMissing t \<or> e = SchemaExtensionFailure t c"
  by (auto simp: alter_add_def split: option.splits if_splits)

lemma alter_all_Inr:
  assumes "alter_all s t cs = Inr s'" and "map_of (tables s) t = Some tb"
  shows "map_of (tables s') t =
           Some \<lparr>tcols = tcols tb @ cs, trows = map (\<lambda>r. r @ replicate (length cs) CNone) (trows tb)\<rparr>
         \<and> (\<forall>n. n \<noteq> t \<longrightarrow> map_of (tables s') n = map_of (tables s) n)
         \<and> executed s' = executed s @ map (AlterAddTextNull t) cs
         \<and> printed s' = printed s
         \<and> (distinct (map str_lower (tcols tb)) \<longrightarrow> distinct (map str_lower (tcols tb @ cs)))"
  using assms
proof (induction cs arbitrary: s tb)
  case Nil
  then show ?case by simp
next
  case (Cons c cs)
  from Cons.prems obtain s1 where a: "alter_add s t c = Inr s1" and r: "alter_all s1 t cs = Inr s'"
    by (auto split: sum.splits)
  note f = alter_add_Inr [OF a Cons.prems(2)]
  let ?tb1 = "\<lparr>tcols = tcols tb @ [c], trows = map (\<lambda>r. r @ [CNone]) (trows tb)\<rparr>"
  from Cons.IH [OF r f(2)] f show ?case
    by (auto simp: replicate_append_same)
qed

lemma alter_all_Inl:
  "alter_all s t cs = Inl e \<Longrightarrow> e = TableMissing t \<or> (\<exists>c. e = SchemaExtensionFailure t c)"
proof (induction cs arbitrary: s)
  case Nil
  then show ?case by simp
next
  case (Cons c cs)
  then show ?case
    by (auto split: sum.splits dest: alter_add_Inl)
qed

section \<open>Alignment\<close>

lemma alter_all_Inl_present:
  "alter_all s t cs = Inl e \<Longrightarrow> map_of (tables s) t = Some tb \<Longrightarrow> \<exists>c\<in>set cs. e = SchemaExtensionFailure t c"
proof (induction cs arbitrary: s tb)
  case Nil
  then show ?case by simp
next
  case (Cons c cs)
  show ?case
  proof (cases "alter_add s t c")
    case (Inl e')
    with Cons.prems show ?thesis
      by (auto simp: alter_add_def split: if_splits)
  next
    case (Inr s1)
    with Cons.prems have "alter_all s1 t cs = Inl e" by simp
    from Cons.IH [OF this alter_add_Inr(2) [OF Inr Cons.prems(2)]] show ?thesis by simp
  qed
qed

lemma reorder_spec:
  assumes "wf_df df" and "set (columns df) = set (columns df0)"
  shows "\<exists>df'. reorder s tc (filter (\<lambda>c. c \<notin> set (columns df0)) tc) df = Inr (df', tc, s)
           \<and> columns df' = tc \<and> nrows df' = nrows df
           \<and> list_all (\<lambda>r. length r = length tc) (rows df')
           \<and> (distinct tc \<longrightarrow> (\<forall>c\<in>set tc. col_values df' c =
                 (if c \<in> set (columns df) then col_values df c else replicate (nrows df) [CNone])))"
proof -
  let ?missing = "filter (\<lambda>c. c \<notin> set (columns df0)) tc"
  let ?d2 = "fold setitem_none ?missing df"
  have wf2: "wf_df ?d2" using assms(1) by (rule wf_df_fold_setitem_none)
  have sub: "set tc \<subseteq> set (columns ?d2)"
    using assms(2) by (auto simp: set_columns_fold_setitem_none)
  from getitem_cols_ok [OF wf2 sub] obtain df' where
    g: "getitem_cols tc ?d2 = Inr df'" and c: "columns df' = tc" and n: "nrows df' = nrows ?d2"
    and r: "list_all (\<lambda>r. length r = length tc) (rows df')"
    and v: "distinct tc \<longrightarrow> (\<forall>c\<in>set tc. col_values df' c = col_values ?d2 c)"
    by blast
  have "col_values ?d2 c = (if c \<in> set (columns df) then col_values df c else replicate (nrows df) [CNone])"
    if "c \<in> set tc" for c
    using that assms by (simp add: col_values_fold_setitem_none)
  with g c n r v show ?thesis
    by (intro exI [of _ df']) (simp add: reorder_def)
qed

lemma align_table_exists:
  "align_df_to_table s t df flag = Inr res \<Longrightarrow> \<exists>tb. map_of (tables s) t = Some tb"
  by (auto simp: align_df_to_table_def get_table_columns_def split: option.splits)

lemma align_Inr:
  assumes wf: "wf_df df" and al: "align_df_to_table s t df flag = Inr (df', cols, s')"
    and tb: "map_of (tables s) t = Some tb"
    and ex: "extra = filter (\<lambda>c. c \<notin> set (tcols tb)) (columns df)"
  shows "cols = (if flag then tcols tb @ extra else tcols tb)
     \<and> columns df' = cols \<and> nrows df' = nrows df
     \<and> list_all (\<lambda>r. length r = length cols) (rows df')
     \<and> (distinct cols \<longrightarrow> (\<forall>c\<in>set cols. col_values df' c =
           (if c \<in> set (columns df) \<and> c \<in> set (tcols tb) then col_values df c
            else replicate (nrows df) [CNone])))
     \<and> (distinct (map str_lower (tcols tb)) \<longrightarrow> distinct (map str_lower cols))
     \<and> map_of (tables s') t =
          Some \<lparr>tcols = cols, trows = map (\<lambda>r. r @ replicate (length cols - length (tcols tb)) CNone) (trows tb)\<rparr>
     \<and> (\<forall>n. n \<noteq> t \<longrightarrow> map_of (tables s') n = map_of (tables s) n)
     \<and> executed s' = executed s @
          (if flag \<and> extra \<noteq> [] then ShowColumns t # map (AlterAddTextNull t) extra @ [ShowColumns t]
           else [ShowColumns t])
     \<and> printed s' = printed s @
          (if extra = [] then [] else if flag then [CreatedExtras t extra] else [DroppingExtras t extra])"
proof -
  let ?tc = "tcols tb"
  let ?s1 = "s\<lparr>executed := executed s @ [ShowColumns t]\<rparr>"
  let ?missing = "filter (\<lambda>c. c \<notin> set (columns df)) ?tc"
  have g1: "get_table_columns s t = Inr (?tc, ?s1)"
    using tb by (simp add: get_table_columns_Inr)
  have tbeq: "\<lparr>tcols = tcols tb, trows = map (\<lambda>r. r @ replicate 0 CNone) (trows tb)\<rparr> = tb"
    by simp
  consider (none) "extra = []" | (ext) "extra \<noteq> []" "flag" | (drop) "extra \<noteq> []" "\<not> flag"
    by blast
  then show ?thesis
  proof cases
    case none
    then have sub: "set (columns df) \<subseteq> set ?tc"
      by (auto simp: ex filter_empty_conv)
    from al g1 none have r: "reorder ?s1 ?tc ?missing df = Inr (df', cols, s')"
      by (simp add: align_df_to_table_def Let_def ex)
    from reorder_spec [OF wf refl, of ?s1 ?tc] r have
      f: "cols = ?tc" "s' = ?s1" "columns df' = ?tc" "nrows df' = nrows df"
      "list_all (\<lambda>r. length r = length ?tc) (rows df')"
      and v: "distinct ?tc \<longrightarrow> (\<forall>c\<in>set ?tc. col_values df' c =
                 (if c \<in> set (columns df) then col_values df c else replicate (nrows df) [CNone]))"
      by auto
    from f v none tb tbeq show ?thesis by simp
  next
    case drop
    let ?keep = "filter (\<lambda>c. c \<in> set ?tc) (columns df)"
    let ?s1' = "?s1\<lparr>printed := printed ?s1 @ [DroppingExtras t extra]\<rparr>"
    have dk: "distinct ?keep" using wf by (simp add: wf_df_def)
    from getitem_cols_ok [OF wf, of ?keep] dk obtain d1 where
      g: "getitem_cols ?keep df = Inr d1" and c1: "columns d1 = ?keep" and n1: "nrows d1 = nrows df"
      and wf1: "wf_df d1" and v1: "\<forall>c\<in>set ?keep. col_values d1 c = col_values df c"
      by auto
    have m: "?missing = filter (\<lambda>c. c \<notin> set (columns d1)) ?tc"
      unfolding c1 by (rule filter_cong) auto
    from al g1 drop g have r: "reorder ?s1' ?tc ?missing d1 = Inr (df', cols, s')"
      by (simp add: align_df_to_table_def Let_def ex)
    from reorder_spec [OF wf1 refl, of ?s1' ?tc] r have
      f: "cols = ?tc" "s' = ?s1'" "columns df' = ?tc" "nrows df' = nrows df"
      "list_all (\<lambda>r. length r = length ?tc) (rows df')"
      and v: "distinct ?tc \<longrightarrow> (\<forall>c\<in>set ?tc. col_values df' c =
                 (if c \<in> set (columns d1) then col_values d1 c else replicate (nrows d1) [CNone]))"
      unfolding m [symmetric] n1 [symmetric] by auto
    have v': "distinct ?tc \<longrightarrow> (\<forall>c\<in>set ?tc. col_values df' c =
           (if c \<in> set (columns df) \<and> c \<in> set ?tc then col_values df c
            else replicate (nrows df) [CNone]))"
      using v v1 c1 n1 by auto
    from f v' drop tb tbeq show ?thesis by simp
  next
    case ext
    from al g1 ext obtain s2 where e: "ensure_extra_columns_as_null ?s1 t extra = Inr s2"
      by (auto simp: align_df_to_table_def Let_def ex split: sum.splits)
    then obtain sa where aa: "alter_all ?s1 t extra = Inr sa"
      and s2: "s2 = sa\<lparr>printed := printed sa @ [CreatedExtras t extra]\<rparr>"
      using ext by (auto simp: ensure_extra_columns_as_null_def split: sum.splits)
    have tb1: "map_of (tables ?s1) t = Some tb" using tb by simp
    note A = alter_all_Inr [OF aa tb1]
    let ?tb2 = "\<lparr>tcols = ?tc @ extra, trows = map (\<lambda>r. r @ replicate (length extra) CNone) (trows tb)\<rparr>"
    have tb2: "map_of (tables s2) t = Some ?tb2" using A s2 by simp
    let ?s3 = "s2\<lparr>executed := executed s2 @ [ShowColumns t]\<rparr>"
    have g2: "get_table_columns s2 t = Inr (?tc @ extra, ?s3)"
      using tb2 by (simp add: get_table_columns_Inr)
    let ?d1 = "fold setitem_none extra df"
    have wf1: "wf_df ?d1" using wf by (rule wf_df_fold_setitem_none)
    have c1: "columns ?d1 = columns df"
      by (rule columns_fold_setitem_none_present) (auto simp: ex)
    from al g1 ext e g2 have r:
      "reorder ?s3 (?tc @ extra) (filter (\<lambda>c. c \<notin> set (columns ?d1)) (?tc @ extra)) ?d1 = Inr (df', cols, s')"
      by (simp add: align_df_to_table_def Let_def ex)
    from reorder_spec [OF wf1 refl, of ?s3 "?tc @ extra"] r have
      f: "cols = ?tc @ extra" "s' = ?s3" "columns df' = ?tc @ extra" "nrows df' = nrows df"
      "list_all (\<lambda>r. length r = length (?tc @ extra)) (rows df')"
      and v: "distinct (?tc @ extra) \<longrightarrow> (\<forall>c\<in>set (?tc @ extra). col_values df' c =
                 (if c \<in> set (columns ?d1) then col_values ?d1 c else replicate (nrows ?d1) [CNone]))"
      by auto
    have v': "distinct (?tc @ extra) \<longrightarrow> (\<forall>c\<in>set (?tc @ extra). col_values df' c =
           (if c \<in> set (columns df) \<and> c \<in> set ?tc then col_values df c
            else replicate (nrows df) [CNone]))"
      using v unfolding c1 col_values_fold_setitem_none [OF wf] by (auto simp: ex)
    have t3: "map_of (tables s') t = Some ?tb2" using f(2) tb2 by simp
    have o3: "\<forall>n. n \<noteq> t \<longrightarrow> map_of (tables s') n = map_of (tables s) n"
      using f(2) s2 A by simp
    have e3: "executed s' = executed s @ ShowColumns t # map (AlterAddTextNull t) extra @ [ShowColumns t]"
      using f(2) s2 A by simp
    have p3: "printed s' = printed s @ [CreatedExtras t extra]"
      using f(2) s2 A by simp
    have d3: "distinct (map str_lower ?tc) \<longrightarrow> distinct (map str_lower (?tc @ extra))"
      using A by blast
    from f(1,3,4,5) v' t3 o3 e3 p3 d3 ext show ?thesis by simp
  qed
qed

lemma align_Inl:
  assumes wf: "wf_df df" and al: "align_df_to_table s t df flag = Inl e"
  shows "(e = TableMissing t \<and> map_of (tables s) t = None)
       \<or> (flag \<and> (\<exists>tb. map_of (tables s) t = Some tb
              \<and> (\<exists>c\<in>set (filter (\<lambda>c. c \<notin> set (tcols tb)) (columns df)). e = SchemaExtensionFailure t c)))"
proof (cases "get_table_columns s t")
  case (Inl e')
  with al show ?thesis
    by (auto simp: align_df_to_table_def get_table_columns_def split: option.splits)
next
  case (Inr p)
  then obtain tc s1 where g1: "get_table_columns s t = Inr (tc, s1)" by (cases p) auto
  then obtain tb where tb: "map_of (tables s) t = Some tb" and tc: "tc = tcols tb"
    and s1: "s1 = s\<lparr>executed := executed s @ [ShowColumns t]\<rparr>"
    by (auto simp: get_table_columns_Inr)
  let ?extra = "filter (\<lambda>c. c \<notin> set tc) (columns df)"
  let ?missing = "filter (\<lambda>c. c \<notin> set (columns df)) tc"
  consider (none) "?extra = []" | (ext) "?extra \<noteq> []" "flag" | (drop) "?extra \<noteq> []" "\<not> flag"
    by blast
  then show ?thesis
  proof cases
    case none
    with al g1 have "reorder s1 tc ?missing df = Inl e"
      by (simp add: align_df_to_table_def Let_def)
    with reorder_spec [OF wf refl, of s1 tc] show ?thesis by auto
  next
    case drop
    let ?keep = "filter (\<lambda>c. c \<in> set tc) (columns df)"
    have dk: "distinct ?keep" using wf by (simp add: wf_df_def)
    from getitem_cols_ok [OF wf, of ?keep] dk obtain d1 where
      g: "getitem_cols ?keep df = Inr d1" and c1: "columns d1 = ?keep" and wf1: "wf_df d1"
      by auto
    have m: "?missing = filter (\<lambda>c. c \<notin> set (columns d1)) tc"
      unfolding c1 by (rule filter_cong) auto
    from al g1 drop g have
      "reorder (s1\<lparr>printed := printed s1 @ [DroppingExtras t ?extra]\<rparr>) tc ?missing d1 = Inl e"
      by (simp add: align_df_to_table_def Let_def)
    with reorder_spec [OF wf1 refl, of "s1\<lparr>printed := printed s1 @ [DroppingExtras t ?extra]\<rparr>" tc]
    show ?thesis unfolding m by auto
  next
    case ext
    show ?thesis
    proof (cases "ensure_extra_columns_as_null s1 t ?extra")
      case (Inl e')
      with al g1 ext have "e = e'" by (simp add: align_df_to_table_def Let_def)
      moreover from Inl ext have "alter_all s1 t ?extra = Inl e'"
        by (auto simp: ensure_extra_columns_as_null_def split: sum.splits)
      moreover have "map_of (tables s1) t = Some tb" using tb s1 by simp
      ultimately show ?thesis using ext tb tc alter_all_Inl_present by blast
    next
      case (Inr s2)
      show ?thesis
      proof (cases "get_table_columns s2 t")
        case (Inl e')
        from Inr ext obtain sa where aa: "alter_all s1 t ?extra = Inr sa"
          and s2: "s2 = sa\<lparr>printed := printed sa @ [CreatedExtras t ?extra]\<rparr>"
          by (auto simp: ensure_extra_columns_as_null_def split: sum.splits)
        have "map_of (tables s1) t = Some tb" using tb s1 by simp
        from alter_all_Inr [OF aa this] s2 have "map_of (tables s2) t \<noteq> None" by simp
        with Inl show ?thesis
          by (auto simp: get_table_columns_def split: option.splits)
      next
        case g2: (Inr q)
        then obtain tc' s3 where g2': "get_table_columns s2 t = Inr (tc', s3)" by (cases q) auto
        let ?d1 = "fold setitem_none ?extra df"
        have wf1: "wf_df ?d1" using wf by (rule wf_df_fold_setitem_none)
        from al g1 ext Inr g2' have
          "reorder s3 tc' (filter (\<lambda>c. c \<notin> set (columns ?d1)) tc') ?d1 = Inl e"
          by (simp add: align_df_to_table_def Let_def)
        with reorder_spec [OF wf1 refl, of s3 tc'] show ?thesis by auto
      qed
    qed
  qed
qed

lemma align_succeeds:
  assumes "wf_df df" and "map_of (tables s) t = Some tb"
    and "\<not> flag \<or> set (columns df) \<subseteq> set (tcols tb)"
  shows "\<exists>df' cols s'. align_df_to_table s t df flag = Inr (df', cols, s')"
proof (cases "align_df_to_table s t df flag")
  case (Inl e)
  from align_Inl [OF assms(1) Inl] assms(2,3) show ?thesis by auto
next
  case (Inr res)
  then show ?thesis by (cases res) auto
qed

lemma wf_tbl_distinct: "wf_tbl tb \<Longrightarrow> distinct (tcols tb)"
  by (simp add: wf_tbl_def distinct_map)

text \<open>
  C1. On a dataframe as \<^verbatim>\<open>read_csv\<close> gives it, \<^verbatim>\<open>align_df_to_table\<close> either fails in the
  database (the table does not exist, or an ADD COLUMN is rejected) or returns a
  rectangular dataframe: its columns are exactly the returned column list, in that order,
  this list is what the table's columns are when the call returns, every row has one cell
  per column, and the row count is the one of the dataset. It never fails in the
  dataframe operations.
\<close>

theorem align_df_to_table_rectangular:
  assumes "wf_df df"
  shows "case align_df_to_table s table df flag of
           Inr (df', cols, s') \<Rightarrow>
             columns df' = cols
             \<and> get_table_columns s' table = Inr (cols, s'\<lparr>executed := executed s' @ [ShowColumns table]\<rparr>)
             \<and> nrows df' = nrows df
             \<and> list_all (\<lambda>r. length r = length cols) (rows df')
         | Inl e \<Rightarrow>
             (e = TableMissing table \<and> map_of (tables s) table = None)
             \<or> (flag \<and> (\<exists>c\<in>set (columns df). e = SchemaExtensionFailure table c))"
proof (cases "align_df_to_table s table df flag")
  case (Inl e)
  from align_Inl [OF assms Inl] Inl show ?thesis by auto
next
  case (Inr res)
  obtain df' cols s' where res: "res = (df', cols, s')" by (cases res) auto
  from align_table_exists [OF Inr] obtain tb where tb: "map_of (tables s) table = Some tb" by blast
  from align_Inr [OF assms Inr [unfolded res] tb refl] have
    "columns df' = cols" "nrows df' = nrows df" "list_all (\<lambda>r. length r = length cols) (rows df')"
    by blast+
  moreover from align_Inr [OF assms Inr [unfolded res] tb refl] have
    "\<exists>tb'. map_of (tables s') table = Some tb' \<and> tcols tb' = cols"
    by (elim conjE) simp
  ultimately have "columns df' = cols" "nrows df' = nrows df" "list_all (\<lambda>r. length r = length cols) (rows df')"
    "\<exists>tb'. map_of (tables s') table = Some tb' \<and> tcols tb' = cols"
    by blast+
  with Inr res show ?thesis
    by (auto simp: get_table_columns_Inr)
qed

theorem align_df_to_table_rectangular_witness:
  "wf_df \<lparr>columns = [''id'', ''name'', ''category_name''],
          rows = [[CInt 1, CStr ''a'', CStr ''x''], [CInt 2, CStr ''b'', CStr ''y'']]\<rparr>
   \<and> align_df_to_table
       \<lparr>tables = [(''products'', \<lparr>tcols = [''id'', ''region'', ''name''], trows = []\<rparr>)],
        executed = [], printed = []\<rparr>
       ''products''
       \<lparr>columns = [''id'', ''name'', ''category_name''],
        rows = [[CInt 1, CStr ''a'', CStr ''x''], [CInt 2, CStr ''b'', CStr ''y'']]\<rparr>
       True
     = Inr (\<lparr>columns = [''id'', ''region'', ''name'', ''category_name''],
             rows = [[CInt 1, CNone, CStr ''a'', CNone], [CInt 2, CNone, CStr ''b'', CNone]]\<rparr>,
            [''id'', ''region'', ''name'', ''category_name''],
            \<lparr>tables = [(''products'', \<lparr>tcols = [''id'', ''region'', ''name'', ''category_name''], trows = []\<rparr>)],
             executed = [ShowColumns ''products'', AlterAddTextNull ''products'' ''category_name'',
                         ShowColumns ''products''],
             printed = [CreatedExtras ''products'' [''category_name'']]\<rparr>)
   \<and> nrows \<lparr>columns = [''id'', ''region'', ''name'', ''category_name''],
             rows = [[CInt 1, CNone, CStr ''a'', CNone], [CInt 2, CNone, CStr ''b'', CNone]]\<rparr>
       = nrows \<lparr>columns = [''id'', ''name'', ''category_name''],
                rows = [[CInt 1, CStr ''a'', CStr ''x''], [CInt 2, CStr ''b'', CStr ''y'']]\<rparr>"
proof -
  let ?df = "\<lparr>columns = [''id'', ''name'', ''category_name''],
          rows = [[CInt 1, CStr ''a'', CStr ''x''], [CInt 2, CStr ''b'', CStr ''y'']]\<rparr>"
  let ?s = "\<lparr>tables = [(''products'', \<lparr>tcols = [''id'', ''region'', ''name''], trows = []\<rparr>)],
        executed = [], printed = []\<rparr>"
  have w: "wf_df ?df" by (simp add: wf_df_def)
  have e: "align_df_to_table ?s ''products'' ?df True
     = Inr (\<lparr>columns = [''id'', ''region'', ''name'', ''category_name''],
             rows = [[CInt 1, CNone, CStr ''a'', CNone], [CInt 2, CNone, CStr ''b'', CNone]]\<rparr>,
            [''id'', ''region'', ''name'', ''category_name''],
            \<lparr>tables = [(''products'', \<lparr>tcols = [''id'', ''region'', ''name'', ''category_name''], trows = []\<rparr>)],
             executed = [ShowColumns ''products'', AlterAddTextNull ''products'' ''category_name'',
                         ShowColumns ''products''],
             printed = [CreatedExtras ''products'' [''category_name'']]\<rparr>)"
    by code_simp
  from align_df_to_table_rectangular [OF w, where s = ?s and table = "''products''" and flag = True] w e show ?thesis
    by simp
qed


section \<open>Loading a table\<close>

lemma wf_df_normalise_nulls: "wf_df df \<Longrightarrow> wf_df (normalise_nulls df)"
  by (auto simp: wf_df_def normalise_nulls_def list_all_iff)

lemma wf_df_to_bool_int: "wf_df df \<Longrightarrow> wf_df (to_bool_int df cols)"
  unfolding to_bool_int_def
  by (induction cols arbitrary: df) (simp_all add: wf_df_map_column)

lemma wf_df_prepared: "wf_df df \<Longrightarrow> wf_df (to_bool_int (normalise_nulls df) cols)"
  by (simp add: wf_df_normalise_nulls wf_df_to_bool_int)

lemma tcols_insert_row [simp]: "tcols (insert_row cols t r) = tcols t"
  by (simp add: insert_row_def Let_def)

lemma tcols_fold_insert_row [simp]: "tcols (fold (\<lambda>r t. insert_row cols t r) batch t) = tcols t"
  by (induction batch arbitrary: t) simp_all

lemma pk_of_layout:
  assumes "tcols t = cols" and "cols \<noteq> []" and "length r = length cols"
  shows "pk_of (map (\<lambda>c. case map_of (zip cols r) c of Some v \<Rightarrow> v | None \<Rightarrow> CNone) (tcols t)) = take 1 r"
proof -
  from assms obtain c cs where c: "cols = c # cs" by (cases cols) auto
  with assms obtain v vs where r: "r = v # vs" by (cases r) auto
  show ?thesis using assms(1) c r by (simp add: pk_of_def)
qed

lemma insert_row_present:
  assumes "tcols t = cols" and "cols \<noteq> []" and "length r = length cols"
    and "take 1 r \<in> set (map pk_of (trows t))"
  shows "insert_row cols t r = t"
  using assms(4) pk_of_layout [OF assms(1-3)] by (simp add: insert_row_def Let_def)

lemma insert_row_keys:
  assumes "tcols t = cols" and "cols \<noteq> []" and "length r = length cols"
  shows "set (map pk_of (trows (insert_row cols t r))) = insert (take 1 r) (set (map pk_of (trows t)))"
  using pk_of_layout [OF assms] by (auto simp: insert_row_def Let_def)

lemma fold_insert_row_keys:
  assumes "tcols t = cols" and "cols \<noteq> []" and "list_all (\<lambda>r. length r = length cols) batch"
  shows "set (map pk_of (trows (fold (\<lambda>r t. insert_row cols t r) batch t)))
           = take 1 ` set batch \<union> set (map pk_of (trows t))"
  using assms
proof (induction batch arbitrary: t)
  case Nil
  then show ?case by simp
next
  case (Cons r batch)
  have "tcols (insert_row cols t r) = cols" using Cons.prems(1) by simp
  from Cons.IH [OF this Cons.prems(2)] Cons.prems insert_row_keys [of t cols r]
  show ?case by auto
qed

lemma fold_insert_row_noop:
  assumes "tcols t = cols" and "cols \<noteq> []" and "list_all (\<lambda>r. length r = length cols) batch"
    and "take 1 ` set batch \<subseteq> set (map pk_of (trows t))"
  shows "fold (\<lambda>r t. insert_row cols t r) batch t = t"
  using assms
proof (induction batch arbitrary: t)
  case Nil
  then show ?case by simp
next
  case (Cons r batch)
  have "insert_row cols t r = t"
    using Cons.prems by (intro insert_row_present) auto
  with Cons show ?case by simp
qed

lemma executemany_spec:
  assumes "map_of (tables s) t = Some tb" and "set cols \<subseteq> set (tcols tb)"
  shows "\<exists>s'. executemany s t cols batch = Inr s'
           \<and> map_of (tables s') t = Some (fold (\<lambda>r t. insert_row cols t r) batch tb)
           \<and> (\<forall>n. n \<noteq> t \<longrightarrow> map_of (tables s') n = map_of (tables s) n)"
proof -
  have "filter (\<lambda>c. c \<notin> set (tcols tb)) cols = []"
    using assms(2) by (auto simp: filter_empty_conv)
  with assms(1) show ?thesis
    by (simp add: executemany_def map_of_update_table)
qed

lemma insert_parts_spec:
  assumes "map_of (tables s) t = Some tb" and "set cols \<subseteq> set (tcols tb)"
  shows "\<exists>s'. insert_parts s t cols parts = Inr s'
           \<and> map_of (tables s') t = Some (fold (\<lambda>r t. insert_row cols t r) (concat (map rows parts)) tb)
           \<and> (\<forall>n. n \<noteq> t \<longrightarrow> map_of (tables s') n = map_of (tables s) n)"
  using assms
proof (induction parts arbitrary: s tb)
  case Nil
  then show ?case by simp
next
  case (Cons p parts)
  from executemany_spec [OF Cons.prems, of "rows p"] obtain s1 where
    e: "executemany s t cols (rows p) = Inr s1"
    and t1: "map_of (tables s1) t = Some (fold (\<lambda>r t. insert_row cols t r) (rows p) tb)"
    and o1: "\<forall>n. n \<noteq> t \<longrightarrow> map_of (tables s1) n = map_of (tables s) n"
    by blast
  have "set cols \<subseteq> set (tcols (fold (\<lambda>r t. insert_row cols t r) (rows p) tb))"
    using Cons.prems(2) by simp
  from Cons.IH [OF t1 this] e o1 show ?case by auto
qed

lemma load_table_spec:
  assumes wf: "wf_df df" and tb: "map_of (tables s) t = Some tb"
    and al: "align_df_to_table s t (to_bool_int (normalise_nulls df) (bool_cols_of t)) flag = Inr (df3, cols, s1)"
  shows "\<exists>s' parts tb1. load_table s t df flag = Inr s'
           \<and> map_of (tables s1) t = Some tb1 \<and> tcols tb1 = cols
           \<and> map_of (tables s') t = Some (fold (\<lambda>r t. insert_row cols t r) (rows df3) tb1)
           \<and> (\<forall>n. n \<noteq> t \<longrightarrow> map_of (tables s') n = map_of (tables s) n)
           \<and> chunked df3 5000 = Inr parts \<and> concat (map rows parts) = rows df3
           \<and> executed s' = executed s1 @ map (\<lambda>p. InsertIgnore t cols (rows p)) parts
           \<and> printed s' = printed s1"
proof -
  let ?P = "to_bool_int (normalise_nulls df) (bool_cols_of t)"
  have wfP: "wf_df ?P" using wf by (rule wf_df_prepared)
  note A = align_Inr [OF wfP al tb refl]
  let ?tb1 = "\<lparr>tcols = cols, trows = map (\<lambda>r. r @ replicate (length cols - length (tcols tb)) CNone) (trows tb)\<rparr>"
  have t1: "map_of (tables s1) t = Some ?tb1" using A by blast
  have o1: "\<forall>n. n \<noteq> t \<longrightarrow> map_of (tables s1) n = map_of (tables s) n" using A by blast
  obtain parts where ch: "chunked df3 5000 = Inr parts" and cc: "concat (map rows parts) = rows df3"
    using chunked_slices [of 5000 df3] by auto
  have "set cols \<subseteq> set (tcols ?tb1)" by simp
  from insert_parts_spec [OF t1 this, of parts] obtain s' where
    ip: "insert_parts s1 t cols parts = Inr s'"
    and t2: "map_of (tables s') t = Some (fold (\<lambda>r t. insert_row cols t r) (concat (map rows parts)) ?tb1)"
    and o2: "\<forall>n. n \<noteq> t \<longrightarrow> map_of (tables s') n = map_of (tables s1) n"
    by blast
  have l: "load_table s t df flag = Inr s'"
    using al ch ip by (simp add: load_table_def Let_def)
  from insert_parts_executed [OF ip] l t1 t2 o1 o2 ch cc show ?thesis
    by (intro exI [of _ s'] exI [of _ parts] exI [of _ ?tb1]) simp
qed

lemma load_table_Inr_align:
  "load_table s t df flag = Inr s' \<Longrightarrow>
     \<exists>df3 cols s1. align_df_to_table s t (to_bool_int (normalise_nulls df) (bool_cols_of t)) flag = Inr (df3, cols, s1)"
  by (auto simp: load_table_def Let_def split: sum.splits)

lemma take1_col_values:
  assumes "wf_df d" and "columns d \<noteq> []"
  shows "map (take 1) (rows d) = col_values d (hd (columns d))"
proof -
  from assms(2) obtain c cs where c: "columns d = c # cs" by (cases "columns d") auto
  have "take 1 r = row_get (columns d) r c" if "r \<in> set (rows d)" for r
  proof -
    from that assms(1) c have "length r = Suc (length cs)"
      by (auto simp: wf_df_def list_all_iff)
    then obtain v vs where r: "r = v # vs"
      by (cases r) auto
    have "c \<notin> set cs" using assms(1) c by (simp add: wf_df_def)
    then show ?thesis unfolding c r by (simp add: row_get_Cons row_get_absent)
  qed
  then show ?thesis by (simp add: col_values_def c)
qed

lemma align_facts:
  assumes "wf_df df" and "align_df_to_table s t df flag = Inr (df', cols, s')"
    and "map_of (tables s) t = Some tb"
    and "extra = filter (\<lambda>c. c \<notin> set (tcols tb)) (columns df)"
  shows "cols = (if flag then tcols tb @ extra else tcols tb)"
    and "columns df' = cols"
    and "nrows df' = nrows df"
    and "list_all (\<lambda>r. length r = length cols) (rows df')"
    and "distinct cols \<Longrightarrow> c \<in> set cols \<Longrightarrow> col_values df' c =
           (if c \<in> set (columns df) \<and> c \<in> set (tcols tb) then col_values df c
            else replicate (nrows df) [CNone])"
    and "distinct (map str_lower (tcols tb)) \<Longrightarrow> distinct (map str_lower cols)"
    and "map_of (tables s') t =
          Some \<lparr>tcols = cols, trows = map (\<lambda>r. r @ replicate (length cols - length (tcols tb)) CNone) (trows tb)\<rparr>"
    and "n \<noteq> t \<Longrightarrow> map_of (tables s') n = map_of (tables s) n"
    and "executed s' = executed s @
          (if flag \<and> extra \<noteq> [] then ShowColumns t # map (AlterAddTextNull t) extra @ [ShowColumns t]
           else [ShowColumns t])"
    and "printed s' = printed s @
          (if extra = [] then [] else if flag then [CreatedExtras t extra] else [DroppingExtras t extra])"
  using align_Inr [OF assms] by blast+

lemma second_align:
  assumes wf: "wf_df df" and tb: "map_of (tables s) t = Some tb" and wt: "wf_tbl tb"
    and al1: "align_df_to_table s t (to_bool_int (normalise_nulls df) (bool_cols_of t)) flag = Inr (df3, cols, s1a)"
    and l1: "load_table s t df flag = Inr s1"
  shows "\<exists>T1 df2 s2. map_of (tables s1) t = Some T1 \<and> tcols T1 = cols
           \<and> (\<forall>n. n \<noteq> t \<longrightarrow> map_of (tables s1) n = map_of (tables s) n)
           \<and> take 1 ` set (rows df3) \<subseteq> set (map pk_of (trows T1))
           \<and> align_df_to_table s1 t (to_bool_int (normalise_nulls df) (bool_cols_of t)) flag = Inr (df2, cols, s2)
           \<and> map_of (tables s2) t = Some T1
           \<and> (\<forall>n. n \<noteq> t \<longrightarrow> map_of (tables s2) n = map_of (tables s1) n)
           \<and> executed s2 = executed s1 @ [ShowColumns t]
           \<and> list_all (\<lambda>r. length r = length cols) (rows df2)
           \<and> map (take 1) (rows df2) = map (take 1) (rows df3)
           \<and> cols \<noteq> []
           \<and> (\<forall>c\<in>set (columns (to_bool_int (normalise_nulls df) (bool_cols_of t))).
                 flag \<or> c \<in> set (tcols tb) \<longrightarrow>
                 col_values df2 c = col_values (to_bool_int (normalise_nulls df) (bool_cols_of t)) c)"
proof -
  let ?P = "to_bool_int (normalise_nulls df) (bool_cols_of t)"
  let ?ins = "\<lambda>r t. insert_row cols t r"
  have wfP: "wf_df ?P" using wf by (rule wf_df_prepared)
  note A = align_facts [OF wfP al1 tb refl]
  have c1: "cols = (if flag then tcols tb @ filter (\<lambda>c. c \<notin> set (tcols tb)) (columns ?P) else tcols tb)"
    by (rule A(1))
  have tne: "tcols tb \<noteq> []" and tdl: "distinct (map str_lower (tcols tb))"
    using wt by (simp_all add: wf_tbl_def)
  have ne: "cols \<noteq> []" using tne by (subst c1) simp
  have hd: "hd cols = hd (tcols tb)" using tne by (subst c1) simp
  have pk_tb: "hd (tcols tb) \<in> set (tcols tb)" using tne by simp
  have dl: "distinct (map str_lower cols)" using A(6) tdl by blast
  then have d: "distinct cols" by (simp add: distinct_map)
  have cd3: "columns df3 = cols" and n3: "nrows df3 = nrows ?P"
    and r3: "list_all (\<lambda>r. length r = length cols) (rows df3)"
    by (rule A(2) A(3) A(4))+
  have v3: "\<forall>c\<in>set cols. col_values df3 c =
           (if c \<in> set (columns ?P) \<and> c \<in> set (tcols tb) then col_values ?P c
            else replicate (nrows ?P) [CNone])"
    using A(5) d by blast
  have wf3: "wf_df df3" using cd3 r3 d by (simp add: wf_df_def)
  from load_table_spec [OF wf tb al1] l1 obtain tb1 where
    t1a: "map_of (tables s1a) t = Some tb1" and tc1: "tcols tb1 = cols"
    and T1: "map_of (tables s1) t = Some (fold ?ins (rows df3) tb1)"
    and o1: "\<forall>n. n \<noteq> t \<longrightarrow> map_of (tables s1) n = map_of (tables s) n"
    by auto
  let ?T1 = "fold ?ins (rows df3) tb1"
  have tcT: "tcols ?T1 = cols" using tc1 by simp
  have keys: "take 1 ` set (rows df3) \<subseteq> set (map pk_of (trows ?T1))"
    using fold_insert_row_keys [OF tc1 ne r3] by blast
  have sub: "\<not> flag \<or> set (columns ?P) \<subseteq> set (tcols ?T1)"
    unfolding tcT using c1 by auto
  from align_succeeds [OF wfP T1 sub] obtain df2 cols2 s2 where
    al2: "align_df_to_table s1 t ?P flag = Inr (df2, cols2, s2)" by blast
  note B = align_facts [OF wfP al2 T1 refl]
  have ex2: "flag \<Longrightarrow> filter (\<lambda>c. c \<notin> set (tcols ?T1)) (columns ?P) = []"
    unfolding tcT using c1 by (auto simp: filter_empty_conv)
  have c2: "cols2 = cols" using B(1) ex2 tcT by (cases flag) auto
  have tbeq: "\<lparr>tcols = cols, trows = map (\<lambda>r. r @ replicate (length cols - length (tcols ?T1)) CNone) (trows ?T1)\<rparr> = ?T1"
    unfolding tcT using tcT by simp
  have T2: "map_of (tables s2) t = Some ?T1"
    using B(7) tbeq unfolding c2 by simp
  have o2: "\<forall>n. n \<noteq> t \<longrightarrow> map_of (tables s2) n = map_of (tables s1) n" using B(8) by blast
  have e2: "executed s2 = executed s1 @ [ShowColumns t]"
    using B(9) ex2 by (cases flag) auto
  have cd2: "columns df2 = cols" and n2: "nrows df2 = nrows ?P"
    and r2: "list_all (\<lambda>r. length r = length cols) (rows df2)"
    using B(2) B(3) B(4) unfolding c2 by blast+
  have v2: "\<forall>c\<in>set cols. col_values df2 c =
           (if c \<in> set (columns ?P) \<and> c \<in> set cols then col_values ?P c
            else replicate (nrows ?P) [CNone])"
    using B(5) d unfolding c2 tcT by blast
  have wf2: "wf_df df2" using cd2 r2 d by (simp add: wf_df_def)
  have pk_cols: "hd cols \<in> set cols" using ne by simp
  have "col_values df2 (hd cols) = col_values df3 (hd cols)"
    using v2 v3 pk_cols pk_tb hd by auto
  then have pk: "map (take 1) (rows df2) = map (take 1) (rows df3)"
    using take1_col_values [OF wf2] take1_col_values [OF wf3] cd2 cd3 ne by simp
  have pass: "\<forall>c\<in>set (columns ?P). flag \<or> c \<in> set (tcols tb) \<longrightarrow> col_values df2 c = col_values ?P c"
    using v2 c1 by auto
  from T1 tcT o1 keys al2 [unfolded c2] T2 o2 e2 r2 pk ne pass show ?thesis
    by blast
qed

text \<open>
  C5. With a sink that skips a row whose primary key is already stored, loading a dataset
  a second time changes nothing: if the first \<^verbatim>\<open>load_table\<close> returned, the second returns
  too (no error), and every table holds exactly the rows it held after the first load (no
  new row, none overwritten, none duplicated), so the row count is the same.
\<close>

theorem load_table_idempotent:
  assumes wf: "wf_df df" and tb: "map_of (tables s) table = Some tb" and wt: "wf_tbl tb"
    and l1: "load_table s table df flag = Inr s1"
  shows "\<exists>s2. load_table s1 table df flag = Inr s2
           \<and> (\<forall>n. map_of (tables s2) n = map_of (tables s1) n)
           \<and> map_option (\<lambda>t. length (trows t)) (map_of (tables s2) table)
               = map_option (\<lambda>t. length (trows t)) (map_of (tables s1) table)"
proof -
  from load_table_Inr_align [OF l1] obtain df3 cols s1a where
    al1: "align_df_to_table s table (to_bool_int (normalise_nulls df) (bool_cols_of table)) flag = Inr (df3, cols, s1a)"
    by blast
  from second_align [OF wf tb wt al1 l1] obtain T1 df2 s2a where
    T1: "map_of (tables s1) table = Some T1" and tc: "tcols T1 = cols" and ne: "cols \<noteq> []"
    and keys: "take 1 ` set (rows df3) \<subseteq> set (map pk_of (trows T1))"
    and al2: "align_df_to_table s1 table (to_bool_int (normalise_nulls df) (bool_cols_of table)) flag = Inr (df2, cols, s2a)"
    and T2: "map_of (tables s2a) table = Some T1"
    and o2: "\<forall>n. n \<noteq> table \<longrightarrow> map_of (tables s2a) n = map_of (tables s1) n"
    and r2: "list_all (\<lambda>r. length r = length cols) (rows df2)"
    and pk: "map (take 1) (rows df2) = map (take 1) (rows df3)"
    by blast
  from load_table_spec [OF wf T1 al2] obtain s2 tb2 where
    l2: "load_table s1 table df flag = Inr s2"
    and t2a: "map_of (tables s2a) table = Some tb2"
    and t2: "map_of (tables s2) table = Some (fold (\<lambda>r t. insert_row cols t r) (rows df2) tb2)"
    and o3: "\<forall>n. n \<noteq> table \<longrightarrow> map_of (tables s2) n = map_of (tables s1) n"
    by blast
  have tb2: "tb2 = T1" using T2 t2a by simp
  have "take 1 ` set (rows df2) = take 1 ` set (rows df3)"
    using pk by (metis image_set)
  with keys have "take 1 ` set (rows df2) \<subseteq> set (map pk_of (trows T1))" by simp
  from fold_insert_row_noop [OF tc ne r2 this] t2 tb2
  have "map_of (tables s2) table = Some T1" by simp
  with T1 o3 have "\<forall>n. map_of (tables s2) n = map_of (tables s1) n" by metis
  with l2 show ?thesis by simp
qed

text \<open>
  C9. A dataset column that the table already has goes through the alignment with its
  cells unchanged; only columns that the table lacks at that call are set to None. So
  when a first load with the flag set has returned (it has added the dataset's extra
  columns to the table), the alignment of a second load of the same dataset sends no
  ALTER TABLE and hands every dataset column, the former extra ones included, to the
  insert step with the normalised CSV cells.
\<close>

theorem present_columns_pass_through:
  assumes wf: "wf_df df" and tb: "map_of (tables s) table = Some tb" and wt: "wf_tbl tb"
    and c: "c \<in> set (columns df)"
  shows "(c \<in> set (tcols tb) \<longrightarrow>
            (\<forall>df' cols s'. align_df_to_table s table df flag = Inr (df', cols, s') \<longrightarrow>
               c \<in> set cols \<and> col_values df' c = col_values df c))
       \<and> (\<forall>s1. load_table s table df True = Inr s1 \<longrightarrow>
            (\<exists>df2 cols2 s2 s3 parts.
               align_df_to_table s1 table (to_bool_int (normalise_nulls df) (bool_cols_of table)) True
                 = Inr (df2, cols2, s2)
               \<and> executed s2 = executed s1 @ [ShowColumns table]
               \<and> col_values df2 c = col_values (to_bool_int (normalise_nulls df) (bool_cols_of table)) c
               \<and> load_table s1 table df True = Inr s3
               \<and> chunked df2 5000 = Inr parts \<and> concat (map rows parts) = rows df2
               \<and> executed s3 = executed s2 @ map (\<lambda>p. InsertIgnore table cols2 (rows p)) parts))"
proof (intro conjI impI allI)
  fix df' cols s'
  assume ct: "c \<in> set (tcols tb)" and al: "align_df_to_table s table df flag = Inr (df', cols, s')"
  note A = align_facts [OF wf al tb refl]
  have "distinct (map str_lower cols)" using A(6) wt by (simp add: wf_tbl_def)
  then have d: "distinct cols" by (simp add: distinct_map)
  show "c \<in> set cols" using ct by (subst A(1)) simp
  then show "col_values df' c = col_values df c"
    using A(5) [OF d] c ct by simp
next
  fix s1
  assume l1: "load_table s table df True = Inr s1"
  let ?P = "to_bool_int (normalise_nulls df) (bool_cols_of table)"
  from load_table_Inr_align [OF l1] obtain df3 cols s1a where
    al1: "align_df_to_table s table ?P True = Inr (df3, cols, s1a)"
    by blast
  from second_align [OF wf tb wt al1 l1] obtain T1 df2 s2 where
    T1: "map_of (tables s1) table = Some T1"
    and al2: "align_df_to_table s1 table ?P True = Inr (df2, cols, s2)"
    and e2: "executed s2 = executed s1 @ [ShowColumns table]"
    and pass: "\<forall>c\<in>set (columns ?P). True \<or> c \<in> set (tcols tb) \<longrightarrow> col_values df2 c = col_values ?P c"
    by blast
  have v: "col_values df2 c = col_values ?P c" using pass c by simp
  from load_table_spec [OF wf T1 al2] obtain s3 parts where
    "load_table s1 table df True = Inr s3" "chunked df2 5000 = Inr parts"
    "concat (map rows parts) = rows df2"
    "executed s3 = executed s2 @ map (\<lambda>p. InsertIgnore table cols (rows p)) parts"
    by blast
  with al2 e2 v show "\<exists>df2 cols2 s2 s3 parts.
               align_df_to_table s1 table ?P True = Inr (df2, cols2, s2)
               \<and> executed s2 = executed s1 @ [ShowColumns table]
               \<and> col_values df2 c = col_values ?P c
               \<and> load_table s1 table df True = Inr s3
               \<and> chunked df2 5000 = Inr parts \<and> concat (map rows parts) = rows df2
               \<and> executed s3 = executed s2 @ map (\<lambda>p. InsertIgnore table cols2 (rows p)) parts"
    by blast
qed

section \<open>The run over the load order\<close>

lemma load_all_append:
  "load_all flag files s (xs @ ys) =
     (case load_all flag files s xs of Inl e \<Rightarrow> Inl e | Inr s1 \<Rightarrow> load_all flag files s1 ys)"
  by (induction xs arbitrary: s) (auto split: option.splits sum.splits)

text \<open>
  C8. A table of the load order whose file is absent does not stop the run: after the
  tables before it, the loop prints the skip notice, sends nothing to the database, and
  goes on with the tables after it, in order. The run as a whole fails only if the load of
  a table whose file exists fails.
\<close>

theorem missing_file_is_skipped:
  assumes "files name = None"
  shows "load_all flag files s (pre @ name # post) =
           (case load_all flag files s pre of
              Inl e \<Rightarrow> Inl e
            | Inr s1 \<Rightarrow> load_all flag files (s1\<lparr>printed := printed s1 @ [Skip name]\<rparr>) post)
       \<and> (LOAD_ORDER = pre @ name # post \<longrightarrow>
            main given files s =
              (case load_all True files s pre of
                 Inl e \<Rightarrow> Inl e
               | Inr s1 \<Rightarrow>
                   (case load_all True files (s1\<lparr>printed := printed s1 @ [Skip name]\<rparr>) post of
                      Inl e \<Rightarrow> Inl e
                    | Inr s' \<Rightarrow> Inr (s'\<lparr>printed := printed s' @ [Done]\<rparr>))))"
proof -
  have step: "load_all f files s (pre @ name # post) =
           (case load_all f files s pre of
              Inl e \<Rightarrow> Inl e
            | Inr s1 \<Rightarrow> load_all f files (s1\<lparr>printed := printed s1 @ [Skip name]\<rparr>) post)" for f
    using assms by (simp add: load_all_append split: sum.splits)
  have "main given files s =
          (case load_all True files s (pre @ name # post) of
             Inl e \<Rightarrow> Inl e
           | Inr s' \<Rightarrow> Inr (s'\<lparr>printed := printed s' @ [Done]\<rparr>))"
    if "LOAD_ORDER = pre @ name # post"
    using that by (simp add: main_def add_extras_as_null_arg_def store_true_def)
  then show ?thesis
    unfolding step by (simp split: sum.splits)
qed

lemma alter_all_printed: "alter_all s t cs = Inr s' \<Longrightarrow> printed s' = printed s"
proof (induction cs arbitrary: s)
  case Nil
  then show ?case by simp
next
  case (Cons c cs)
  then show ?case
    by (auto simp: alter_add_def split: sum.splits option.splits if_splits)
qed

lemma align_printed_True:
  assumes "align_df_to_table s t df True = Inr (df', cols, s')"
  shows "\<exists>new. printed s' = printed s @ new \<and> (\<forall>t' ex. DroppingExtras t' ex \<notin> set new)"
proof -
  from assms obtain tc s1 where g1: "get_table_columns s t = Inr (tc, s1)"
    by (auto simp: align_df_to_table_def split: sum.splits)
  then have p1: "printed s1 = printed s" by (auto simp: get_table_columns_Inr)
  let ?extra = "filter (\<lambda>c. c \<notin> set tc) (columns df)"
  show ?thesis
  proof (cases "?extra = []")
    case True
    with assms g1 have "s' = s1"
      by (auto simp: align_df_to_table_def Let_def reorder_def split: sum.splits)
    with p1 show ?thesis by simp
  next
    case False
    with assms g1 obtain s2 tc' s3 where e: "ensure_extra_columns_as_null s1 t ?extra = Inr s2"
      and g2: "get_table_columns s2 t = Inr (tc', s3)" and "s' = s3"
      by (auto simp: align_df_to_table_def Let_def reorder_def split: sum.splits)
    moreover from e False have "printed s2 = printed s1 @ [CreatedExtras t ?extra]"
      by (auto simp: ensure_extra_columns_as_null_def split: sum.splits dest: alter_all_printed)
    moreover from g2 have "printed s3 = printed s2" by (auto simp: get_table_columns_Inr)
    ultimately show ?thesis using p1 by simp
  qed
qed

lemma load_table_printed_True:
  assumes "load_table s t df True = Inr s'"
  shows "\<exists>new. printed s' = printed s @ new \<and> (\<forall>t' ex. DroppingExtras t' ex \<notin> set new)"
proof -
  from assms obtain df3 cols s1 parts where
    al: "align_df_to_table s t (to_bool_int (normalise_nulls df) (bool_cols_of t)) True = Inr (df3, cols, s1)"
    and ip: "insert_parts s1 t cols parts = Inr s'"
    by (auto simp: load_table_def Let_def split: sum.splits)
  from insert_parts_executed [OF ip] align_printed_True [OF al] show ?thesis by simp
qed

lemma load_all_printed_True:
  "load_all True files s names = Inr s' \<Longrightarrow>
     \<exists>new. printed s' = printed s @ new \<and> (\<forall>t' ex. DroppingExtras t' ex \<notin> set new)"
proof (induction names arbitrary: s)
  case Nil
  then show ?case by simp
next
  case (Cons name names)
  show ?case
  proof (cases "files name")
    case None
    with Cons.prems have "load_all True files (s\<lparr>printed := printed s @ [Skip name]\<rparr>) names = Inr s'"
      by simp
    from Cons.IH [OF this] obtain new where
      "printed s' = printed s @ Skip name # new" "\<forall>t' ex. DroppingExtras t' ex \<notin> set new"
      by auto
    then show ?thesis by (intro exI [of _ "Skip name # new"]) simp
  next
    case (Some df)
    with Cons.prems obtain s1 where
      l: "load_table (s\<lparr>printed := printed s @ [Load name]\<rparr>) name df True = Inr s1"
      and r: "load_all True files (s1\<lparr>printed := printed s1 @ [Ok name (nrows df)]\<rparr>) names = Inr s'"
      by (auto split: sum.splits)
    from load_table_printed_True [OF l] obtain n1 where
      n1: "printed s1 = printed s @ Load name # n1" "\<forall>t' ex. DroppingExtras t' ex \<notin> set n1"
      by auto
    from Cons.IH [OF r] obtain n2 where
      n2: "printed s' = printed s1 @ Ok name (nrows df) # n2" "\<forall>t' ex. DroppingExtras t' ex \<notin> set n2"
      by auto
    from n1 n2 show ?thesis
      by (intro exI [of _ "Load name # n1 @ Ok name (nrows df) # n2"]) simp
  qed
qed

lemma load_table_extends_schema:
  assumes wf: "wf_df df" and tb: "map_of (tables s) t = Some tb"
    and l: "load_table s t df True = Inr s'"
  shows "\<exists>tb'. map_of (tables s') t = Some tb'
           \<and> tcols tb' = tcols tb @ filter (\<lambda>c. c \<notin> set (tcols tb)) (columns df)"
proof -
  let ?P = "to_bool_int (normalise_nulls df) (bool_cols_of t)"
  from load_table_Inr_align [OF l] obtain df3 cols s1 where
    al: "align_df_to_table s t ?P True = Inr (df3, cols, s1)" by blast
  have "cols = tcols tb @ filter (\<lambda>c. c \<notin> set (tcols tb)) (columns ?P)"
    using align_facts(1) [OF wf_df_prepared [OF wf] al tb refl] by simp
  moreover from load_table_spec [OF wf tb al] l obtain tb1 where
    "tcols tb1 = cols" "map_of (tables s') t = Some (fold (\<lambda>r t. insert_row cols t r) (rows df3) tb1)"
    by auto
  ultimately show ?thesis by simp
qed

text \<open>
  C10. \<^verbatim>\<open>--add-extras-as-null\<close> is a \<^verbatim>\<open>store_true\<close> flag whose default is True, so
  \<^verbatim>\<open>args.add_extras_as_null\<close> is True whether or not the flag is given. Every
  \<^verbatim>\<open>load_table\<close> call of \<^verbatim>\<open>main\<close> therefore has the flag set: a run never prints the
  notice of the drop-extras branch, and a load that returns has added the dataset's extra
  columns to the table.
\<close>

theorem add_extras_flag_always_set:
  "add_extras_as_null_arg given = True
   \<and> main given files s =
       (case load_all True files s LOAD_ORDER of
          Inl e \<Rightarrow> Inl e
        | Inr s' \<Rightarrow> Inr (s'\<lparr>printed := printed s' @ [Done]\<rparr>))
   \<and> (\<forall>s'. main given files s = Inr s' \<longrightarrow>
         (\<exists>new. printed s' = printed s @ new \<and> (\<forall>t ex. DroppingExtras t ex \<notin> set new)))
   \<and> (\<forall>s0 t df tb s1. wf_df df \<and> map_of (tables s0) t = Some tb
         \<and> load_table s0 t df (add_extras_as_null_arg given) = Inr s1 \<longrightarrow>
         (\<exists>tb'. map_of (tables s1) t = Some tb'
            \<and> tcols tb' = tcols tb @ filter (\<lambda>c. c \<notin> set (tcols tb)) (columns df)))"
proof -
  have a: "add_extras_as_null_arg given = True"
    by (simp add: add_extras_as_null_arg_def store_true_def)
  have m: "main given files s =
       (case load_all True files s LOAD_ORDER of
          Inl e \<Rightarrow> Inl e
        | Inr s' \<Rightarrow> Inr (s'\<lparr>printed := printed s' @ [Done]\<rparr>))"
    by (simp add: main_def a)
  have p: "\<exists>new. printed s' = printed s @ new \<and> (\<forall>t ex. DroppingExtras t ex \<notin> set new)"
    if "main given files s = Inr s'" for s'
  proof -
    from that m obtain s1 where l: "load_all True files s LOAD_ORDER = Inr s1"
      and s': "s' = s1\<lparr>printed := printed s1 @ [Done]\<rparr>"
      by (auto split: sum.splits)
    from load_all_printed_True [OF l] obtain new where
      "printed s1 = printed s @ new" "\<forall>t ex. DroppingExtras t ex \<notin> set new" by blast
    with s' show ?thesis by (intro exI [of _ "new @ [Done]"]) simp
  qed
  show ?thesis
    using a m p load_table_extends_schema unfolding a by blast
qed

section \<open>A worked load: the products table gains a column\<close>

lemma ex_align:
  "align_df_to_table
       \<lparr>tables = [(''products'', \<lparr>tcols = [''id'', ''region'', ''name''], trows = []\<rparr>)],
        executed = [], printed = []\<rparr>
       ''products''
       \<lparr>columns = [''id'', ''name'', ''category_name''],
        rows = [[CInt 1, CStr ''a'', CStr ''x''], [CInt 2, CStr ''b'', CStr ''y'']]\<rparr>
       True
     = Inr (\<lparr>columns = [''id'', ''region'', ''name'', ''category_name''],
             rows = [[CInt 1, CNone, CStr ''a'', CNone], [CInt 2, CNone, CStr ''b'', CNone]]\<rparr>,
            [''id'', ''region'', ''name'', ''category_name''],
            \<lparr>tables = [(''products'', \<lparr>tcols = [''id'', ''region'', ''name'', ''category_name''], trows = []\<rparr>)],
             executed = [ShowColumns ''products'', AlterAddTextNull ''products'' ''category_name'',
                         ShowColumns ''products''],
             printed = [CreatedExtras ''products'' [''category_name'']]\<rparr>)"
  by code_simp

lemma ex_wf_df:
  "wf_df \<lparr>columns = [''id'', ''name'', ''category_name''],
          rows = [[CInt 1, CStr ''a'', CStr ''x''], [CInt 2, CStr ''b'', CStr ''y'']]\<rparr>"
  by (simp add: wf_df_def)

lemma ex_wf_tbl: "wf_tbl \<lparr>tcols = [''id'', ''region'', ''name''], trows = []\<rparr>"
  by code_simp

lemma ex_load:
  "load_table
       \<lparr>tables = [(''products'', \<lparr>tcols = [''id'', ''region'', ''name''], trows = []\<rparr>)],
        executed = [], printed = []\<rparr>
       ''products''
       \<lparr>columns = [''id'', ''name'', ''category_name''],
        rows = [[CInt 1, CStr ''a'', CStr ''x''], [CInt 2, CStr ''b'', CStr ''y'']]\<rparr>
       True
     = Inr \<lparr>tables = [(''products'',
                \<lparr>tcols = [''id'', ''region'', ''name'', ''category_name''],
                 trows = [[CInt 1, CNone, CStr ''a'', CNone], [CInt 2, CNone, CStr ''b'', CNone]]\<rparr>)],
             executed = [ShowColumns ''products'', AlterAddTextNull ''products'' ''category_name'',
                         ShowColumns ''products'',
                         InsertIgnore ''products'' [''id'', ''region'', ''name'', ''category_name'']
                           [[CInt 1, CNone, CStr ''a'', CNone], [CInt 2, CNone, CStr ''b'', CNone]]],
             printed = [CreatedExtras ''products'' [''category_name'']]\<rparr>"
  by code_simp



theorem load_table_idempotent_witness:
  "load_table \<lparr>tables = [(''products'', \<lparr>tcols = [''id'', ''region'', ''name''], trows = []\<rparr>)],
        executed = [], printed = []\<rparr> ''products'' \<lparr>columns = [''id'', ''name'', ''category_name''],
        rows = [[CInt 1, CStr ''a'', CStr ''x''], [CInt 2, CStr ''b'', CStr ''y'']]\<rparr> True
     = Inr \<lparr>tables = [(''products'',
                \<lparr>tcols = [''id'', ''region'', ''name'', ''category_name''],
                 trows = [[CInt 1, CNone, CStr ''a'', CNone], [CInt 2, CNone, CStr ''b'', CNone]]\<rparr>)],
             executed = [ShowColumns ''products'', AlterAddTextNull ''products'' ''category_name'',
                         ShowColumns ''products'',
                         InsertIgnore ''products'' [''id'', ''region'', ''name'', ''category_name'']
                           [[CInt 1, CNone, CStr ''a'', CNone], [CInt 2, CNone, CStr ''b'', CNone]]],
             printed = [CreatedExtras ''products'' [''category_name'']]\<rparr>
   \<and> (\<exists>s2. load_table \<lparr>tables = [(''products'',
                \<lparr>tcols = [''id'', ''region'', ''name'', ''category_name''],
                 trows = [[CInt 1, CNone, CStr ''a'', CNone], [CInt 2, CNone, CStr ''b'', CNone]]\<rparr>)],
             executed = [ShowColumns ''products'', AlterAddTextNull ''products'' ''category_name'',
                         ShowColumns ''products'',
                         InsertIgnore ''products'' [''id'', ''region'', ''name'', ''category_name'']
                           [[CInt 1, CNone, CStr ''a'', CNone], [CInt 2, CNone, CStr ''b'', CNone]]],
             printed = [CreatedExtras ''products'' [''category_name'']]\<rparr> ''products'' \<lparr>columns = [''id'', ''name'', ''category_name''],
        rows = [[CInt 1, CStr ''a'', CStr ''x''], [CInt 2, CStr ''b'', CStr ''y'']]\<rparr> True = Inr s2
          \<and> (\<forall>n. map_of (tables s2) n = map_of (tables \<lparr>tables = [(''products'',
                \<lparr>tcols = [''id'', ''region'', ''name'', ''category_name''],
                 trows = [[CInt 1, CNone, CStr ''a'', CNone], [CInt 2, CNone, CStr ''b'', CNone]]\<rparr>)],
             executed = [ShowColumns ''products'', AlterAddTextNull ''products'' ''category_name'',
                         ShowColumns ''products'',
                         InsertIgnore ''products'' [''id'', ''region'', ''name'', ''category_name'']
                           [[CInt 1, CNone, CStr ''a'', CNone], [CInt 2, CNone, CStr ''b'', CNone]]],
             printed = [CreatedExtras ''products'' [''category_name'']]\<rparr>) n)
          \<and> map_option (\<lambda>t. length (trows t)) (map_of (tables s2) ''products'') = Some 2)"
proof -
  have tb: "map_of (tables \<lparr>tables = [(''products'', \<lparr>tcols = [''id'', ''region'', ''name''], trows = []\<rparr>)],
        executed = [], printed = []\<rparr>) ''products'' = Some \<lparr>tcols = [''id'', ''region'', ''name''], trows = []\<rparr>" by simp
  let ?s1 = "\<lparr>tables = [(''products'',
                \<lparr>tcols = [''id'', ''region'', ''name'', ''category_name''],
                 trows = [[CInt 1, CNone, CStr ''a'', CNone], [CInt 2, CNone, CStr ''b'', CNone]]\<rparr>)],
             executed = [ShowColumns ''products'', AlterAddTextNull ''products'' ''category_name'',
                         ShowColumns ''products'',
                         InsertIgnore ''products'' [''id'', ''region'', ''name'', ''category_name'']
                           [[CInt 1, CNone, CStr ''a'', CNone], [CInt 2, CNone, CStr ''b'', CNone]]],
             printed = [CreatedExtras ''products'' [''category_name'']]\<rparr>"
  from load_table_idempotent [OF ex_wf_df tb ex_wf_tbl ex_load] obtain s2 where
    l2: "load_table ?s1 ''products'' \<lparr>columns = [''id'', ''name'', ''category_name''],
        rows = [[CInt 1, CStr ''a'', CStr ''x''], [CInt 2, CStr ''b'', CStr ''y'']]\<rparr> True = Inr s2"
    and eq: "\<forall>n. map_of (tables s2) n = map_of (tables ?s1) n"
    and cnt: "map_option (\<lambda>t. length (trows t)) (map_of (tables s2) ''products'')
               = map_option (\<lambda>t. length (trows t)) (map_of (tables ?s1) ''products'')"
    by blast
  have "map_option (\<lambda>t. length (trows t)) (map_of (tables ?s1) ''products'') = Some 2"
    by simp
  with cnt have cnt': "map_option (\<lambda>t. length (trows t)) (map_of (tables s2) ''products'') = Some 2"
    by (rule trans)
  from ex_load l2 eq cnt' show ?thesis by blast
qed


theorem present_columns_pass_through_witness:
  "col_values \<lparr>columns = [''id'', ''region'', ''name'', ''category_name''],
             rows = [[CInt 1, CNone, CStr ''a'', CNone], [CInt 2, CNone, CStr ''b'', CNone]]\<rparr> ''name''
     = col_values \<lparr>columns = [''id'', ''name'', ''category_name''],
        rows = [[CInt 1, CStr ''a'', CStr ''x''], [CInt 2, CStr ''b'', CStr ''y'']]\<rparr> ''name''
   \<and> (\<exists>df2 cols2 s2 s3 parts.
         align_df_to_table \<lparr>tables = [(''products'',
                \<lparr>tcols = [''id'', ''region'', ''name'', ''category_name''],
                 trows = [[CInt 1, CNone, CStr ''a'', CNone], [CInt 2, CNone, CStr ''b'', CNone]]\<rparr>)],
             executed = [ShowColumns ''products'', AlterAddTextNull ''products'' ''category_name'',
                         ShowColumns ''products'',
                         InsertIgnore ''products'' [''id'', ''region'', ''name'', ''category_name'']
                           [[CInt 1, CNone, CStr ''a'', CNone], [CInt 2, CNone, CStr ''b'', CNone]]],
             printed = [CreatedExtras ''products'' [''category_name'']]\<rparr> ''products''
           (to_bool_int (normalise_nulls \<lparr>columns = [''id'', ''name'', ''category_name''],
        rows = [[CInt 1, CStr ''a'', CStr ''x''], [CInt 2, CStr ''b'', CStr ''y'']]\<rparr>) (bool_cols_of ''products'')) True = Inr (df2, cols2, s2)
         \<and> executed s2 = executed \<lparr>tables = [(''products'',
                \<lparr>tcols = [''id'', ''region'', ''name'', ''category_name''],
                 trows = [[CInt 1, CNone, CStr ''a'', CNone], [CInt 2, CNone, CStr ''b'', CNone]]\<rparr>)],
             executed = [ShowColumns ''products'', AlterAddTextNull ''products'' ''category_name'',
                         ShowColumns ''products'',
                         InsertIgnore ''products'' [''id'', ''region'', ''name'', ''category_name'']
                           [[CInt 1, CNone, CStr ''a'', CNone], [CInt 2, CNone, CStr ''b'', CNone]]],
             printed = [CreatedExtras ''products'' [''category_name'']]\<rparr> @ [ShowColumns ''products'']
         \<and> col_values df2 ''category_name'' = [[CStr ''x''], [CStr ''y'']]
         \<and> load_table \<lparr>tables = [(''products'',
                \<lparr>tcols = [''id'', ''region'', ''name'', ''category_name''],
                 trows = [[CInt 1, CNone, CStr ''a'', CNone], [CInt 2, CNone, CStr ''b'', CNone]]\<rparr>)],
             executed = [ShowColumns ''products'', AlterAddTextNull ''products'' ''category_name'',
                         ShowColumns ''products'',
                         InsertIgnore ''products'' [''id'', ''region'', ''name'', ''category_name'']
                           [[CInt 1, CNone, CStr ''a'', CNone], [CInt 2, CNone, CStr ''b'', CNone]]],
             printed = [CreatedExtras ''products'' [''category_name'']]\<rparr> ''products'' \<lparr>columns = [''id'', ''name'', ''category_name''],
        rows = [[CInt 1, CStr ''a'', CStr ''x''], [CInt 2, CStr ''b'', CStr ''y'']]\<rparr> True = Inr s3
         \<and> chunked df2 5000 = Inr parts \<and> concat (map rows parts) = rows df2
         \<and> executed s3 = executed s2 @ map (\<lambda>p. InsertIgnore ''products'' cols2 (rows p)) parts)"
proof -
  have tb: "map_of (tables \<lparr>tables = [(''products'', \<lparr>tcols = [''id'', ''region'', ''name''], trows = []\<rparr>)],
        executed = [], printed = []\<rparr>) ''products'' = Some \<lparr>tcols = [''id'', ''region'', ''name''], trows = []\<rparr>" by simp
  have c1: "''name'' \<in> set (columns \<lparr>columns = [''id'', ''name'', ''category_name''],
        rows = [[CInt 1, CStr ''a'', CStr ''x''], [CInt 2, CStr ''b'', CStr ''y'']]\<rparr>)" by simp
  have c2: "''category_name'' \<in> set (columns \<lparr>columns = [''id'', ''name'', ''category_name''],
        rows = [[CInt 1, CStr ''a'', CStr ''x''], [CInt 2, CStr ''b'', CStr ''y'']]\<rparr>)" by simp
  have t1: "''name'' \<in> set (tcols \<lparr>tcols = [''id'', ''region'', ''name''], trows = []\<rparr>)" by simp
  have p: "col_values (to_bool_int (normalise_nulls \<lparr>columns = [''id'', ''name'', ''category_name''],
        rows = [[CInt 1, CStr ''a'', CStr ''x''], [CInt 2, CStr ''b'', CStr ''y'']]\<rparr>) (bool_cols_of ''products'')) ''category_name'' = [[CStr ''x''], [CStr ''y'']]"
    by code_simp
  from present_columns_pass_through [OF ex_wf_df tb ex_wf_tbl c1, where flag = True] t1 ex_align
  have a: "col_values \<lparr>columns = [''id'', ''region'', ''name'', ''category_name''],
             rows = [[CInt 1, CNone, CStr ''a'', CNone], [CInt 2, CNone, CStr ''b'', CNone]]\<rparr> ''name''
     = col_values \<lparr>columns = [''id'', ''name'', ''category_name''],
        rows = [[CInt 1, CStr ''a'', CStr ''x''], [CInt 2, CStr ''b'', CStr ''y'']]\<rparr> ''name''"
    by blast
  from present_columns_pass_through [OF ex_wf_df tb ex_wf_tbl c2, where flag = True] ex_load
  have b: "\<exists>df2 cols2 s2 s3 parts.
         align_df_to_table \<lparr>tables = [(''products'',
                \<lparr>tcols = [''id'', ''region'', ''name'', ''category_name''],
                 trows = [[CInt 1, CNone, CStr ''a'', CNone], [CInt 2, CNone, CStr ''b'', CNone]]\<rparr>)],
             executed = [ShowColumns ''products'', AlterAddTextNull ''products'' ''category_name'',
                         ShowColumns ''products'',
                         InsertIgnore ''products'' [''id'', ''region'', ''name'', ''category_name'']
                           [[CInt 1, CNone, CStr ''a'', CNone], [CInt 2, CNone, CStr ''b'', CNone]]],
             printed = [CreatedExtras ''products'' [''category_name'']]\<rparr> ''products''
           (to_bool_int (normalise_nulls \<lparr>columns = [''id'', ''name'', ''category_name''],
        rows = [[CInt 1, CStr ''a'', CStr ''x''], [CInt 2, CStr ''b'', CStr ''y'']]\<rparr>) (bool_cols_of ''products'')) True = Inr (df2, cols2, s2)
         \<and> executed s2 = executed \<lparr>tables = [(''products'',
                \<lparr>tcols = [''id'', ''region'', ''name'', ''category_name''],
                 trows = [[CInt 1, CNone, CStr ''a'', CNone], [CInt 2, CNone, CStr ''b'', CNone]]\<rparr>)],
             executed = [ShowColumns ''products'', AlterAddTextNull ''products'' ''category_name'',
                         ShowColumns ''products'',
                         InsertIgnore ''products'' [''id'', ''region'', ''name'', ''category_name'']
                           [[CInt 1, CNone, CStr ''a'', CNone], [CInt 2, CNone, CStr ''b'', CNone]]],
             printed = [CreatedExtras ''products'' [''category_name'']]\<rparr> @ [ShowColumns ''products'']
         \<and> col_values df2 ''category_name'' = col_values (to_bool_int (normalise_nulls \<lparr>columns = [''id'', ''name'', ''category_name''],
        rows = [[CInt 1, CStr ''a'', CStr ''x''], [CInt 2, CStr ''b'', CStr ''y'']]\<rparr>) (bool_cols_of ''products'')) ''category_name''
         \<and> load_table \<lparr>tables = [(''products'',
                \<lparr>tcols = [''id'', ''region'', ''name'', ''category_name''],
                 trows = [[CInt 1, CNone, CStr ''a'', CNone], [CInt 2, CNone, CStr ''b'', CNone]]\<rparr>)],
             executed = [ShowColumns ''products'', AlterAddTextNull ''products'' ''category_name'',
                         ShowColumns ''products'',
                         InsertIgnore ''products'' [''id'', ''region'', ''name'', ''category_name'']
                           [[CInt 1, CNone, CStr ''a'', CNone], [CInt 2, CNone, CStr ''b'', CNone]]],
             printed = [CreatedExtras ''products'' [''category_name'']]\<rparr> ''products'' \<lparr>columns = [''id'', ''name'', ''category_name''],
        rows = [[CInt 1, CStr ''a'', CStr ''x''], [CInt 2, CStr ''b'', CStr ''y'']]\<rparr> True = Inr s3
         \<and> chunked df2 5000 = Inr parts \<and> concat (map rows parts) = rows df2
         \<and> executed s3 = executed s2 @ map (\<lambda>p. InsertIgnore ''products'' cols2 (rows p)) parts"
    by blast
  from a b show ?thesis unfolding p by blast
qed

lemma ex_main:
  "main False (\<lambda>n. if n = ''brands'' then Some \<lparr>columns = [''brand_id'', ''brand_name''], rows = [[CInt 1, CStr ''Acme'']]\<rparr> else None)
     \<lparr>tables = [(''brands'', \<lparr>tcols = [''brand_id'', ''brand_name'', ''website_url''], trows = []\<rparr>)],
        executed = [], printed = []\<rparr>
   = Inr \<lparr>tables = [(''brands'', \<lparr>tcols = [''brand_id'', ''brand_name'', ''website_url''],
                           trows = [[CInt 1, CStr ''Acme'', CNone]]\<rparr>)],
        executed = [ShowColumns ''brands'',
                    InsertIgnore ''brands'' [''brand_id'', ''brand_name'', ''website_url'']
                      [[CInt 1, CStr ''Acme'', CNone]]],
        printed = [Load ''brands'', Ok ''brands'' 1] @ map Skip (''platforms'' # [''categories'', ''platform_fees'', ''marketplace_accounts'',
      ''products'', ''product_variants'', ''product_listings'', ''listing_prices'', ''channel_inventory'',
      ''customers'',
      ''orders'', ''order_items'', ''order_fees'', ''payments'', ''shipments'', ''returns'', ''return_items'',
      ''reviews'',
      ''warehouses'', ''inventory'']) @ [Done]\<rparr>"
  by code_simp

theorem missing_file_is_skipped_witness:
  "(\<lambda>n. if n = ''brands'' then Some \<lparr>columns = [''brand_id'', ''brand_name''], rows = [[CInt 1, CStr ''Acme'']]\<rparr> else None) ''platforms'' = None
   \<and> LOAD_ORDER = [''brands''] @ ''platforms'' # [''categories'', ''platform_fees'', ''marketplace_accounts'',
      ''products'', ''product_variants'', ''product_listings'', ''listing_prices'', ''channel_inventory'',
      ''customers'',
      ''orders'', ''order_items'', ''order_fees'', ''payments'', ''shipments'', ''returns'', ''return_items'',
      ''reviews'',
      ''warehouses'', ''inventory'']
   \<and> main False (\<lambda>n. if n = ''brands'' then Some \<lparr>columns = [''brand_id'', ''brand_name''], rows = [[CInt 1, CStr ''Acme'']]\<rparr> else None)
       \<lparr>tables = [(''brands'', \<lparr>tcols = [''brand_id'', ''brand_name'', ''website_url''], trows = []\<rparr>)],
        executed = [], printed = []\<rparr>
     = (case load_all True (\<lambda>n. if n = ''brands'' then Some \<lparr>columns = [''brand_id'', ''brand_name''], rows = [[CInt 1, CStr ''Acme'']]\<rparr> else None)
              \<lparr>tables = [(''brands'', \<lparr>tcols = [''brand_id'', ''brand_name'', ''website_url''], trows = []\<rparr>)],
        executed = [], printed = []\<rparr> [''brands''] of
          Inl e \<Rightarrow> Inl e
        | Inr s1 \<Rightarrow>
            (case load_all True (\<lambda>n. if n = ''brands'' then Some \<lparr>columns = [''brand_id'', ''brand_name''], rows = [[CInt 1, CStr ''Acme'']]\<rparr> else None)
                    (s1\<lparr>printed := printed s1 @ [Skip ''platforms'']\<rparr>)
                    [''categories'', ''platform_fees'', ''marketplace_accounts'',
      ''products'', ''product_variants'', ''product_listings'', ''listing_prices'', ''channel_inventory'',
      ''customers'',
      ''orders'', ''order_items'', ''order_fees'', ''payments'', ''shipments'', ''returns'', ''return_items'',
      ''reviews'',
      ''warehouses'', ''inventory''] of
               Inl e \<Rightarrow> Inl e
             | Inr s' \<Rightarrow> Inr (s'\<lparr>printed := printed s' @ [Done]\<rparr>)))
   \<and> main False (\<lambda>n. if n = ''brands'' then Some \<lparr>columns = [''brand_id'', ''brand_name''], rows = [[CInt 1, CStr ''Acme'']]\<rparr> else None)
       \<lparr>tables = [(''brands'', \<lparr>tcols = [''brand_id'', ''brand_name'', ''website_url''], trows = []\<rparr>)],
        executed = [], printed = []\<rparr>
     = Inr \<lparr>tables = [(''brands'', \<lparr>tcols = [''brand_id'', ''brand_name'', ''website_url''],
                           trows = [[CInt 1, CStr ''Acme'', CNone]]\<rparr>)],
        executed = [ShowColumns ''brands'',
                    InsertIgnore ''brands'' [''brand_id'', ''brand_name'', ''website_url'']
                      [[CInt 1, CStr ''Acme'', CNone]]],
        printed = [Load ''brands'', Ok ''brands'' 1] @ map Skip (''platforms'' # [''categories'', ''platform_fees'', ''marketplace_accounts'',
      ''products'', ''product_variants'', ''product_listings'', ''listing_prices'', ''channel_inventory'',
      ''customers'',
      ''orders'', ''order_items'', ''order_fees'', ''payments'', ''shipments'', ''returns'', ''return_items'',
      ''reviews'',
      ''warehouses'', ''inventory'']) @ [Done]\<rparr>"
proof -
  have h: "(\<lambda>n. if n = ''brands'' then Some \<lparr>columns = [''brand_id'', ''brand_name''], rows = [[CInt 1, CStr ''Acme'']]\<rparr> else None) ''platforms'' = None" by simp
  have l: "LOAD_ORDER = [''brands''] @ ''platforms'' # [''categories'', ''platform_fees'', ''marketplace_accounts'',
      ''products'', ''product_variants'', ''product_listings'', ''listing_prices'', ''channel_inventory'',
      ''customers'',
      ''orders'', ''order_items'', ''order_fees'', ''payments'', ''shipments'', ''returns'', ''return_items'',
      ''reviews'',
      ''warehouses'', ''inventory'']"
    by (simp add: LOAD_ORDER_def)
  from missing_file_is_skipped [where files = "(\<lambda>n. if n = ''brands'' then Some \<lparr>columns = [''brand_id'', ''brand_name''], rows = [[CInt 1, CStr ''Acme'']]\<rparr> else None)" and name = "''platforms''" and flag = True, OF h, where pre = "[''brands'']" and post = "[''categories'', ''platform_fees'', ''marketplace_accounts'',
      ''products'', ''product_variants'', ''product_listings'', ''listing_prices'', ''channel_inventory'',
      ''customers'',
      ''orders'', ''order_items'', ''order_fees'', ''payments'', ''shipments'', ''returns'', ''return_items'',
      ''reviews'',
      ''warehouses'', ''inventory'']"
      and given = False and s = "\<lparr>tables = [(''brands'', \<lparr>tcols = [''brand_id'', ''brand_name'', ''website_url''], trows = []\<rparr>)],
        executed = [], printed = []\<rparr>"] l
  have "main False (\<lambda>n. if n = ''brands'' then Some \<lparr>columns = [''brand_id'', ''brand_name''], rows = [[CInt 1, CStr ''Acme'']]\<rparr> else None)
       \<lparr>tables = [(''brands'', \<lparr>tcols = [''brand_id'', ''brand_name'', ''website_url''], trows = []\<rparr>)],
        executed = [], printed = []\<rparr>
     = (case load_all True (\<lambda>n. if n = ''brands'' then Some \<lparr>columns = [''brand_id'', ''brand_name''], rows = [[CInt 1, CStr ''Acme'']]\<rparr> else None)
              \<lparr>tables = [(''brands'', \<lparr>tcols = [''brand_id'', ''brand_name'', ''website_url''], trows = []\<rparr>)],
        executed = [], printed = []\<rparr> [''brands''] of
          Inl e \<Rightarrow> Inl e
        | Inr s1 \<Rightarrow>
            (case load_all True (\<lambda>n. if n = ''brands'' then Some \<lparr>columns = [''brand_id'', ''brand_name''], rows = [[CInt 1, CStr ''Acme'']]\<rparr> else None)
                    (s1\<lparr>printed := printed s1 @ [Skip ''platforms'']\<rparr>)
                    [''categories'', ''platform_fees'', ''marketplace_accounts'',
      ''products'', ''product_variants'', ''product_listings'', ''listing_prices'', ''channel_inventory'',
      ''customers'',
      ''orders'', ''order_items'', ''order_fees'', ''payments'', ''shipments'', ''returns'', ''return_items'',
      ''reviews'',
      ''warehouses'', ''inventory''] of
               Inl e \<Rightarrow> Inl e
             | Inr s' \<Rightarrow> Inr (s'\<lparr>printed := printed s' @ [Done]\<rparr>)))"
    by blast
  with h l ex_main show ?thesis by blast
qed

theorem add_extras_flag_always_set_witness:
  "add_extras_as_null_arg False = True
   \<and> main False (\<lambda>n. if n = ''brands'' then Some \<lparr>columns = [''brand_id'', ''brand_name''], rows = [[CInt 1, CStr ''Acme'']]\<rparr> else None)
       \<lparr>tables = [(''brands'', \<lparr>tcols = [''brand_id'', ''brand_name'', ''website_url''], trows = []\<rparr>)],
        executed = [], printed = []\<rparr>
     = Inr \<lparr>tables = [(''brands'', \<lparr>tcols = [''brand_id'', ''brand_name'', ''website_url''],
                           trows = [[CInt 1, CStr ''Acme'', CNone]]\<rparr>)],
        executed = [ShowColumns ''brands'',
                    InsertIgnore ''brands'' [''brand_id'', ''brand_name'', ''website_url'']
                      [[CInt 1, CStr ''Acme'', CNone]]],
        printed = [Load ''brands'', Ok ''brands'' 1] @ map Skip (''platforms'' # [''categories'', ''platform_fees'', ''marketplace_accounts'',
      ''products'', ''product_variants'', ''product_listings'', ''listing_prices'', ''channel_inventory'',
      ''customers'',
      ''orders'', ''order_items'', ''order_fees'', ''payments'', ''shipments'', ''returns'', ''return_items'',
      ''reviews'',
      ''warehouses'', ''inventory'']) @ [Done]\<rparr>
   \<and> (\<exists>new. printed \<lparr>tables = [(''brands'', \<lparr>tcols = [''brand_id'', ''brand_name'', ''website_url''],
                           trows = [[CInt 1, CStr ''Acme'', CNone]]\<rparr>)],
        executed = [ShowColumns ''brands'',
                    InsertIgnore ''brands'' [''brand_id'', ''brand_name'', ''website_url'']
                      [[CInt 1, CStr ''Acme'', CNone]]],
        printed = [Load ''brands'', Ok ''brands'' 1] @ map Skip (''platforms'' # [''categories'', ''platform_fees'', ''marketplace_accounts'',
      ''products'', ''product_variants'', ''product_listings'', ''listing_prices'', ''channel_inventory'',
      ''customers'',
      ''orders'', ''order_items'', ''order_fees'', ''payments'', ''shipments'', ''returns'', ''return_items'',
      ''reviews'',
      ''warehouses'', ''inventory'']) @ [Done]\<rparr> = printed \<lparr>tables = [(''brands'', \<lparr>tcols = [''brand_id'', ''brand_name'', ''website_url''], trows = []\<rparr>)],
        executed = [], printed = []\<rparr> @ new
          \<and> (\<forall>t ex. DroppingExtras t ex \<notin> set new))
   \<and> (\<exists>tb'. map_of (tables \<lparr>tables = [(''products'',
                \<lparr>tcols = [''id'', ''region'', ''name'', ''category_name''],
                 trows = [[CInt 1, CNone, CStr ''a'', CNone], [CInt 2, CNone, CStr ''b'', CNone]]\<rparr>)],
             executed = [ShowColumns ''products'', AlterAddTextNull ''products'' ''category_name'',
                         ShowColumns ''products'',
                         InsertIgnore ''products'' [''id'', ''region'', ''name'', ''category_name'']
                           [[CInt 1, CNone, CStr ''a'', CNone], [CInt 2, CNone, CStr ''b'', CNone]]],
             printed = [CreatedExtras ''products'' [''category_name'']]\<rparr>) ''products'' = Some tb'
          \<and> tcols tb' = [''id'', ''region'', ''name'', ''category_name''])"
proof -
  note T = add_extras_flag_always_set [where given = False and files = "(\<lambda>n. if n = ''brands'' then Some \<lparr>columns = [''brand_id'', ''brand_name''], rows = [[CInt 1, CStr ''Acme'']]\<rparr> else None)"
      and s = "\<lparr>tables = [(''brands'', \<lparr>tcols = [''brand_id'', ''brand_name'', ''website_url''], trows = []\<rparr>)],
        executed = [], printed = []\<rparr>"]
  have a: "add_extras_as_null_arg False = True" using T by blast
  have tb: "map_of (tables \<lparr>tables = [(''products'', \<lparr>tcols = [''id'', ''region'', ''name''], trows = []\<rparr>)],
        executed = [], printed = []\<rparr>) ''products'' = Some \<lparr>tcols = [''id'', ''region'', ''name''], trows = []\<rparr>" by simp
  have l: "load_table \<lparr>tables = [(''products'', \<lparr>tcols = [''id'', ''region'', ''name''], trows = []\<rparr>)],
        executed = [], printed = []\<rparr> ''products'' \<lparr>columns = [''id'', ''name'', ''category_name''],
        rows = [[CInt 1, CStr ''a'', CStr ''x''], [CInt 2, CStr ''b'', CStr ''y'']]\<rparr> (add_extras_as_null_arg False) = Inr \<lparr>tables = [(''products'',
                \<lparr>tcols = [''id'', ''region'', ''name'', ''category_name''],
                 trows = [[CInt 1, CNone, CStr ''a'', CNone], [CInt 2, CNone, CStr ''b'', CNone]]\<rparr>)],
             executed = [ShowColumns ''products'', AlterAddTextNull ''products'' ''category_name'',
                         ShowColumns ''products'',
                         InsertIgnore ''products'' [''id'', ''region'', ''name'', ''category_name'']
                           [[CInt 1, CNone, CStr ''a'', CNone], [CInt 2, CNone, CStr ''b'', CNone]]],
             printed = [CreatedExtras ''products'' [''category_name'']]\<rparr>"
    unfolding a by (rule ex_load)
  from T ex_main have b: "\<exists>new. printed \<lparr>tables = [(''brands'', \<lparr>tcols = [''brand_id'', ''brand_name'', ''website_url''],
                           trows = [[CInt 1, CStr ''Acme'', CNone]]\<rparr>)],
        executed = [ShowColumns ''brands'',
                    InsertIgnore ''brands'' [''brand_id'', ''brand_name'', ''website_url'']
                      [[CInt 1, CStr ''Acme'', CNone]]],
        printed = [Load ''brands'', Ok ''brands'' 1] @ map Skip (''platforms'' # [''categories'', ''platform_fees'', ''marketplace_accounts'',
      ''products'', ''product_variants'', ''product_listings'', ''listing_prices'', ''channel_inventory'',
      ''customers'',
      ''orders'', ''order_items'', ''order_fees'', ''payments'', ''shipments'', ''returns'', ''return_items'',
      ''reviews'',
      ''warehouses'', ''inventory'']) @ [Done]\<rparr> = printed \<lparr>tables = [(''brands'', \<lparr>tcols = [''brand_id'', ''brand_name'', ''website_url''], trows = []\<rparr>)],
        executed = [], printed = []\<rparr> @ new
          \<and> (\<forall>t ex. DroppingExtras t ex \<notin> set new)"
    by blast
  from T ex_wf_df tb l have "\<exists>tb'. map_of (tables \<lparr>tables = [(''products'',
                \<lparr>tcols = [''id'', ''region'', ''name'', ''category_name''],
                 trows = [[CInt 1, CNone, CStr ''a'', CNone], [CInt 2, CNone, CStr ''b'', CNone]]\<rparr>)],
             executed = [ShowColumns ''products'', AlterAddTextNull ''products'' ''category_name'',
                         ShowColumns ''products'',
                         InsertIgnore ''products'' [''id'', ''region'', ''name'', ''category_name'']
                           [[CInt 1, CNone, CStr ''a'', CNone], [CInt 2, CNone, CStr ''b'', CNone]]],
             printed = [CreatedExtras ''products'' [''category_name'']]\<rparr>) ''products'' = Some tb'
          \<and> tcols tb' = tcols \<lparr>tcols = [''id'', ''region'', ''name''], trows = []\<rparr> @ filter (\<lambda>c. c \<notin> set (tcols \<lparr>tcols = [''id'', ''region'', ''name''], trows = []\<rparr>)) (columns \<lparr>columns = [''id'', ''name'', ''category_name''],
        rows = [[CInt 1, CStr ''a'', CStr ''x''], [CInt 2, CStr ''b'', CStr ''y'']]\<rparr>)"
    by blast
  then have c: "\<exists>tb'. map_of (tables \<lparr>tables = [(''products'',
                \<lparr>tcols = [''id'', ''region'', ''name'', ''category_name''],
                 trows = [[CInt 1, CNone, CStr ''a'', CNone], [CInt 2, CNone, CStr ''b'', CNone]]\<rparr>)],
             executed = [ShowColumns ''products'', AlterAddTextNull ''products'' ''category_name'',
                         ShowColumns ''products'',
                         InsertIgnore ''products'' [''id'', ''region'', ''name'', ''category_name'']
                           [[CInt 1, CNone, CStr ''a'', CNone], [CInt 2, CNone, CStr ''b'', CNone]]],
             printed = [CreatedExtras ''products'' [''category_name'']]\<rparr>) ''products'' = Some tb'
          \<and> tcols tb' = [''id'', ''region'', ''name'', ''category_name'']"
    by simp
  from a ex_main b c show ?thesis by blast
qed

end
